theory Spec2Isabelle
  imports Main "HOL-Library.Word" "HOL-Library.AList"
begin

section \<open>The emulated memory and its clock (src/cpu/memory.hpp)\<close>

type_synonym MemPtr = "16 word"

text \<open>
  Modelled from the spec: the class \<open>Clock\<close> (clock.hpp) is not part of the sources.
  The spec describes it as an opaque monotonic cycle counter with the interface
  \<open>current_cycle() \<rightarrow> u64\<close> and \<open>wait_for_next_cycle()\<close>, the default clock being a
  pure counter that advances by one tick on every call of the latter.
\<close>

record Clock =
  current_cycle :: "64 word"

definition CurrentCycle :: "Clock \<Rightarrow> 64 word" where
  "CurrentCycle c = current_cycle c"

definition WaitForNextCycle :: "Clock \<Rightarrow> Clock" where
  "WaitForNextCycle c = c\<lparr>current_cycle := current_cycle c + 1\<rparr>"

text \<open>
  \<open>struct Memory\<close>: the clock the memory points to and the backing array
  \<open>std::array<uint8_t, 1024 * 64>\<close>, an array of exactly \<open>2 ^ 16\<close> bytes, here a total
  function on the 16-bit index type. The constructor fills it with \<open>0x55\<close>. The log
  lines written to \<open>std::cout\<close> are not modelled.
\<close>

record Memory =
  clock :: Clock
  mem :: "MemPtr \<Rightarrow> 8 word"

definition Memory_init :: "Clock \<Rightarrow> Memory" where
  "Memory_init c = \<lparr>clock = c, mem = (\<lambda>_. 0x55)\<rparr>"

definition Load :: "Memory \<Rightarrow> MemPtr \<Rightarrow> 8 word \<times> Memory" where
  "Load m address =
     (let m1 = m\<lparr>clock := WaitForNextCycle (clock m)\<rparr>;
          r = mem m1 address
      in (r, m1))"

definition Store :: "Memory \<Rightarrow> MemPtr \<Rightarrow> 8 word \<Rightarrow> Memory" where
  "Store m address data =
     (let m1 = m\<lparr>clock := WaitForNextCycle (clock m)\<rparr>
      in m1\<lparr>mem := (mem m1)(address := data)\<rparr>)"

text \<open>
  \<open>std::copy(data.begin(), data.end(), mem.begin() + addr)\<close>: byte \<open>k\<close> of the data goes to
  array index \<open>addr + k\<close>. The index is a \<open>size_t\<close> position in the array, so it does not
  wrap at \<open>2 ^ 16\<close>; a copy that would run past the end of the array has no defined
  behaviour in C++ and is \<open>None\<close> in \<open>Write\<close> and \<open>ReadRange\<close> below.
\<close>

fun copy_in :: "8 word list \<Rightarrow> nat \<Rightarrow> (MemPtr \<Rightarrow> 8 word) \<Rightarrow> (MemPtr \<Rightarrow> 8 word)" where
  "copy_in [] i a = a"
| "copy_in (b # bs) i a = copy_in bs (Suc i) (a(of_nat i := b))"

definition Write :: "Memory \<Rightarrow> MemPtr \<Rightarrow> 8 word list \<Rightarrow> Memory option" where
  "Write m addr data =
     (if unat addr + length data \<le> 65536
      then Some (m\<lparr>mem := copy_in data (unat addr) (mem m)\<rparr>)
      else None)"

definition ReadRange :: "Memory \<Rightarrow> MemPtr \<Rightarrow> nat \<Rightarrow> (8 word list \<times> Memory) option" where
  "ReadRange m addr len =
     (if unat addr + len \<le> 65536
      then Some (map (\<lambda>i. mem m (of_nat i)) [unat addr ..< unat addr + len], m)
      else None)"

section \<open>The program container (emu_core/program.hpp)\<close>

type_synonym Address_t = "16 word"

text \<open>\<open>NearOffset_t\<close> is \<open>int8_t\<close>: an 8-bit word read as two's complement (\<open>sint\<close>).\<close>

type_synonym NearOffset_t = "8 word"

datatype RelocationMode = Absolute | Relative | ZeroPage

text \<open>
  The functions of compilation_context.cpp speak of \<open>LabelInfo\<close>, \<open>program.labels\<close>,
  \<open>target_label\<close> and \<open>label_references\<close> where the header among the sources says
  \<open>SymbolInfo\<close>, \<open>symbols\<close> and \<open>target_symbol\<close>; the model keeps the names the functions
  use. The source links a relocation to its label by pointer; labels are never removed
  from or replaced in \<open>program.labels\<close>, so the key of the label in that map stands for
  the pointer, and a change made through the pointer is a new value stored under the key.
  A label lists the relocations that refer to it (\<open>label_references\<close>, in the order of
  reference); a relocation is not changed once it is built, so the list holds its value.
  The fields \<open>segment\<close> and \<open>aliases\<close> are not used by the functions modelled here and
  are left out.
\<close>

record RelocationInfo =
  target_label :: string
  position :: Address_t
  mode :: RelocationMode

record LabelInfo =
  name :: string
  offset :: "Address_t option"
  imported :: bool
  label_references :: "RelocationInfo list"

datatype AddressMode =
  Implied | ACC | IM | ZP | ZPX | ZPY | ABS | ABSX | ABSY | ABS_IND | INDX | INDY | REL

text \<open>
  Everything the assembler throws: a write to a defined cell of the image, a relative
  operand out of range, \<open>Exception("Label {} is already defined")\<close>, the three
  \<open>std::runtime_error\<close>s of \<open>SelectInstuctionVariant\<close>, the \<open>std::out_of_range\<close> of
  \<open>variants.at\<close>, the error \<open>ParseInstruction\<close> throws in place of whatever its \<open>try\<close>
  block caught, and the undefined symbol of the finalization.
\<close>

datatype error =
    AddressOccupied Address_t
  | JumpTooFar
  | LabelAlreadyDefined string
  | FailedToSelectImplied
  | FailedToSelectLabel
  | FailedToSelectData
  | OutOfRange
  | OpcodeDoesNotSupportMode error
  | UndefinedSymbol string

subsection \<open>The sparse image\<close>

type_synonym SparseBinaryCode = "Address_t \<rightharpoonup> 8 word"

text \<open>
  Modelled from the spec: the bodies of \<open>SparseBinaryCode::PutByte\<close> and \<open>PutBytes\<close> are
  not part of the sources (the header declares them, with \<open>overwrite = false\<close> as the
  default). The spec: the image is a partial function from address to byte, and writing an
  already-defined cell without \<open>overwrite = true\<close> is a hard error. \<open>PutBytes\<close> stores the
  bytes at consecutive addresses; an \<open>Address_t\<close> that is incremented past \<open>0xFFFF\<close> wraps
  to 0.
\<close>

definition PutByte :: "SparseBinaryCode \<Rightarrow> Address_t \<Rightarrow> 8 word \<Rightarrow> bool \<Rightarrow> error + SparseBinaryCode" where
  "PutByte sparse_map address byte overwrite =
     (if sparse_map address \<noteq> None \<and> \<not> overwrite then Inl (AddressOccupied address)
      else Inr (sparse_map(address \<mapsto> byte)))"

text \<open>
  Modelled from the spec: \<open>PutBytes\<close>, one \<open>PutByte\<close> per byte at consecutive addresses,
  stopping at the first error.
\<close>

fun PutBytes :: "SparseBinaryCode \<Rightarrow> Address_t \<Rightarrow> 8 word list \<Rightarrow> bool \<Rightarrow> error + SparseBinaryCode" where
  "PutBytes sparse_map address [] overwrite = Inr sparse_map"
| "PutBytes sparse_map address (byte # bytes) overwrite =
     (case PutByte sparse_map address byte overwrite of
        Inl e \<Rightarrow> Inl e
      | Inr sparse_map' \<Rightarrow> PutBytes sparse_map' (address + 1) bytes overwrite)"

text \<open>
  \<open>program.labels\<close> is a \<open>std::unordered_map\<close> from name to label, here an association
  list read with \<open>map_of\<close> and written with \<open>AList.update\<close>. \<open>program.relocations\<close> is a
  \<open>std::set\<close> ordered by \<open>RelocationInfo::operator<\<close>, whose body is not part of the
  sources; the model keeps every relocation that is inserted. Should the comparison
  identify two relocations, the set of the source would hold a subset of this one.
\<close>

record Program =
  sparse_binary_code :: SparseBinaryCode
  labels :: "(string \<times> LabelInfo) list"
  relocations :: "RelocationInfo set"

subsection \<open>Byte utilities\<close>

text \<open>
  Modelled from the spec: \<open>ToBytes\<close> (byte_utils.hpp) is not part of the sources. The
  spec: an absolute operand is two bytes, little-endian, \<open>target_offset & 0xFF\<close> then
  \<open>target_offset >> 8\<close>; a relative operand is the one byte \<open>delta as i8 as u8\<close>.
\<close>

definition ToBytes16 :: "Address_t \<Rightarrow> 8 word list" where
  "ToBytes16 v = [ucast (and v 0xFF), ucast (drop_bit 8 v)]"

definition ToBytes8 :: "8 word \<Rightarrow> 8 word list" where
  "ToBytes8 v = [v]"

text \<open>
  Modelled from the spec: the body of \<open>RelativeJumpOffset(position, target)\<close> is not part
  of the sources (the header declares it, returning \<open>NearOffset_t\<close>). The spec:
  \<open>delta = target_offset - (position + 1)\<close>, an error if \<open>delta\<close> is outside
  \<open>[-128, 127]\<close>, else the byte \<open>delta as i8\<close>. Both callers pass the patch position plus
  one as \<open>position\<close>, so the function subtracts its two arguments.
\<close>

definition RelativeJumpOffset :: "Address_t \<Rightarrow> Address_t \<Rightarrow> error + NearOffset_t" where
  "RelativeJumpOffset position' target =
     (let delta = uint target - uint position'
      in if delta < - 128 \<or> 127 < delta then Inl JumpTooFar else Inr (word_of_int delta))"

section \<open>The compilation context (assembler/compilation_context.cpp)\<close>

record OpcodeInfo =
  opcode :: "8 word"
  addres_mode :: AddressMode

text \<open>
  \<open>InstructionParsingInfo::variants\<close> maps each address mode a mnemonic supports to its
  opcode entry; the opcode table itself is not part of the sources, so the instruction's
  variants are an input. \<open>ParseInstructionArgument\<close> (instruction_argument.hpp) is not
  part of the sources either: its result, the argument's possible address modes and its
  value (no argument, a label, or literal bytes), is an input as well.
\<close>

record InstructionParsingInfo =
  variants :: "(AddressMode \<times> OpcodeInfo) list"

datatype ArgumentValue =
    NoArgument
  | LabelArgument string
  | DataArgument "8 word list"

record InstructionArgument =
  possible_address_modes :: "AddressMode list"
  argument_value :: ArgumentValue

record CompilationContext =
  program :: Program
  current_position :: Address_t

definition find_label :: "CompilationContext \<Rightarrow> string \<Rightarrow> LabelInfo option" where
  "find_label s nm = map_of (labels (program s)) nm"

definition store_label :: "CompilationContext \<Rightarrow> string \<Rightarrow> LabelInfo \<Rightarrow> CompilationContext" where
  "store_label s nm l =
     s\<lparr>program := (program s)\<lparr>labels := AList.update nm l (labels (program s))\<rparr>\<rparr>"

definition store_code :: "CompilationContext \<Rightarrow> SparseBinaryCode \<Rightarrow> CompilationContext" where
  "store_code s sparse_map = s\<lparr>program := (program s)\<lparr>sparse_binary_code := sparse_map\<rparr>\<rparr>"

subsection \<open>Directives\<close>

text \<open>
  The tokens of a directive arrive already parsed (\<open>ParseByte\<close>, \<open>ParseWord\<close> and the
  tokenizer are not part of the sources): \<open>.byte\<close> gets a list of bytes, \<open>.word\<close> a list
  of 16-bit words, \<open>.org\<close> one word.
\<close>

fun ParseByteCommand :: "CompilationContext \<Rightarrow> 8 word list \<Rightarrow> error + CompilationContext" where
  "ParseByteCommand s [] = Inr s"
| "ParseByteCommand s (tok # toks) =
     (case PutBytes (sparse_binary_code (program s)) (current_position s) (ToBytes8 tok) False of
        Inl e \<Rightarrow> Inl e
      | Inr sparse_map \<Rightarrow>
          ParseByteCommand ((store_code s sparse_map)\<lparr>current_position := current_position s + 1\<rparr>) toks)"

fun ParseWordCommand :: "CompilationContext \<Rightarrow> 16 word list \<Rightarrow> error + CompilationContext" where
  "ParseWordCommand s [] = Inr s"
| "ParseWordCommand s (tok # toks) =
     (case PutBytes (sparse_binary_code (program s)) (current_position s) (ToBytes16 tok) False of
        Inl e \<Rightarrow> Inl e
      | Inr sparse_map \<Rightarrow>
          ParseWordCommand ((store_code s sparse_map)\<lparr>current_position := current_position s + 2\<rparr>) toks)"

definition ParseOriginCommand :: "CompilationContext \<Rightarrow> 16 word \<Rightarrow> error + CompilationContext" where
  "ParseOriginCommand s new_pos = Inr (s\<lparr>current_position := new_pos\<rparr>)"

subsection \<open>Labels and relocation\<close>

text \<open>
  The body of the loop of \<open>RelocateLabel\<close>: an \<open>Absolute\<close> reference gets the two bytes of
  the current position, every other reference the one byte of the relative offset from
  the byte after the patch position; both are written with \<open>overwrite = true\<close>.
\<close>

definition relocate_reference :: "CompilationContext \<Rightarrow> RelocationInfo \<Rightarrow> error + CompilationContext" where
  "relocate_reference s rel =
     (if mode rel = Absolute then
        (let bytes = ToBytes16 (current_position s)
         in case PutBytes (sparse_binary_code (program s)) (position rel) bytes True of
              Inl e \<Rightarrow> Inl e
            | Inr sparse_map \<Rightarrow> Inr (store_code s sparse_map))
      else
        (case RelativeJumpOffset (position rel + 1) (current_position s) of
           Inl e \<Rightarrow> Inl e
         | Inr off \<Rightarrow>
             (case PutBytes (sparse_binary_code (program s)) (position rel) (ToBytes8 off) True of
                Inl e \<Rightarrow> Inl e
              | Inr sparse_map \<Rightarrow> Inr (store_code s sparse_map))))"

fun relocate_references :: "CompilationContext \<Rightarrow> RelocationInfo list \<Rightarrow> error + CompilationContext" where
  "relocate_references s [] = Inr s"
| "relocate_references s (rel # rels) =
     (case relocate_reference s rel of
        Inl e \<Rightarrow> Inl e
      | Inr s' \<Rightarrow> relocate_references s' rels)"

definition RelocateLabel :: "CompilationContext \<Rightarrow> LabelInfo \<Rightarrow> error + CompilationContext" where
  "RelocateLabel s label_info = relocate_references s (label_references label_info)"

definition AddLabel :: "CompilationContext \<Rightarrow> string \<Rightarrow> error + CompilationContext" where
  "AddLabel s nm =
     (case find_label s nm of
        None \<Rightarrow>
          Inr (store_label s nm
                 \<lparr>name = nm, offset = Some (current_position s), imported = False,
                  label_references = []\<rparr>)
      | Some l \<Rightarrow>
          (let l1 = l\<lparr>imported := False\<rparr>
           in if offset l1 \<noteq> None then Inl (LabelAlreadyDefined nm)
              else
                (let l2 = l1\<lparr>offset := Some (current_position s)\<rparr>
                 in RelocateLabel (store_label s nm l2) l2)))"

subsection \<open>Instruction encoding\<close>

text \<open>
  \<open>ParseInstruction\<close> sorts the two mode lists and collects their \<open>std::set_intersection\<close>
  in a \<open>std::set<AddressMode>\<close>: the modes that are in both, each once. The set is
  modelled as a list without duplicates. Its iteration order (the order of the
  enumerators in opcode.hpp, which is not part of the sources) is not modelled: the
  selection functions read \<open>*modes.begin()\<close> only after checking \<open>modes.size() == 1\<close>.
\<close>

definition set_intersection :: "AddressMode list \<Rightarrow> AddressMode list \<Rightarrow> AddressMode list" where
  "set_intersection xs ys = remdups (filter (\<lambda>m. m \<in> set ys) xs)"

definition SelectInstuctionVariant_none :: "AddressMode list \<Rightarrow> error + AddressMode" where
  "SelectInstuctionVariant_none modes =
     (if length modes \<noteq> 1 \<or> hd modes \<noteq> Implied then Inl FailedToSelectImplied
      else Inr Implied)"

definition SelectInstuctionVariant_label :: "AddressMode list \<Rightarrow> error + AddressMode" where
  "SelectInstuctionVariant_label modes =
     (let modes1 = removeAll ZPX modes;
          modes2 = removeAll ZPY modes1;
          modes3 = removeAll ZP modes2
      in if length modes3 \<noteq> 1 then Inl FailedToSelectLabel else Inr (hd modes3))"

definition SelectInstuctionVariant_data :: "AddressMode list \<Rightarrow> error + AddressMode" where
  "SelectInstuctionVariant_data modes =
     (if length modes \<noteq> 1 then Inl FailedToSelectData else Inr (hd modes))"

fun SelectInstuctionVariant :: "AddressMode list \<Rightarrow> ArgumentValue \<Rightarrow> error + AddressMode" where
  "SelectInstuctionVariant modes NoArgument = SelectInstuctionVariant_none modes"
| "SelectInstuctionVariant modes (LabelArgument label) = SelectInstuctionVariant_label modes"
| "SelectInstuctionVariant modes (DataArgument data) = SelectInstuctionVariant_data modes"

definition ProcessInstructionArgument_data ::
  "CompilationContext \<Rightarrow> OpcodeInfo \<Rightarrow> 8 word list \<Rightarrow> error + CompilationContext" where
  "ProcessInstructionArgument_data s opc data =
     (case PutBytes (sparse_binary_code (program s)) (current_position s) data False of
        Inl e \<Rightarrow> Inl e
      | Inr sparse_map \<Rightarrow>
          Inr ((store_code s sparse_map)
                 \<lparr>current_position := current_position s + of_nat (length data)\<rparr>))"

text \<open>
  The label overload. The source allocates the relocation, links it into the label's
  \<open>label_references\<close> (creating the label, \<open>imported = true\<close> and without offset, when it
  is not known yet), then sets the relocation's mode, writes the operand bytes and
  inserts the relocation into \<open>program.relocations\<close>. Nothing reads the relocation before
  its mode is set, so the model builds it complete. An exception on the way leaves the
  assembly aborted, so the state of a failed call is not modelled.
\<close>

definition add_reference :: "CompilationContext \<Rightarrow> string \<Rightarrow> RelocationInfo \<Rightarrow> CompilationContext" where
  "add_reference s label relocation =
     (case find_label s label of
        None \<Rightarrow>
          store_label s label
            \<lparr>name = label, offset = None, imported = True, label_references = [relocation]\<rparr>
      | Some l \<Rightarrow>
          store_label s label (l\<lparr>label_references := label_references l @ [relocation]\<rparr>))"

definition insert_relocation :: "CompilationContext \<Rightarrow> RelocationInfo \<Rightarrow> CompilationContext" where
  "insert_relocation s relocation =
     s\<lparr>program := (program s)\<lparr>relocations := insert relocation (relocations (program s))\<rparr>\<rparr>"

definition ProcessInstructionArgument_label ::
  "CompilationContext \<Rightarrow> OpcodeInfo \<Rightarrow> string \<Rightarrow> error + CompilationContext" where
  "ProcessInstructionArgument_label s opc label =
     (let label_addr =
            (case find_label s label of
               None \<Rightarrow> current_position s
             | Some l \<Rightarrow> (case offset l of None \<Rightarrow> current_position s | Some a \<Rightarrow> a))
      in if addres_mode opc = REL then
           (case RelativeJumpOffset (current_position s + 1) label_addr of
              Inl e \<Rightarrow> Inl e
            | Inr off \<Rightarrow>
                (let relocation = \<lparr>target_label = label, position = current_position s,
                                   mode = Relative\<rparr>
                 in case ProcessInstructionArgument_data (add_reference s label relocation) opc
                           (ToBytes8 off) of
                      Inl e \<Rightarrow> Inl e
                    | Inr s' \<Rightarrow> Inr (insert_relocation s' relocation)))
         else
           (let relocation = \<lparr>target_label = label, position = current_position s,
                              mode = Absolute\<rparr>
            in case ProcessInstructionArgument_data (add_reference s label relocation) opc
                      (ToBytes16 label_addr) of
                 Inl e \<Rightarrow> Inl e
               | Inr s' \<Rightarrow> Inr (insert_relocation s' relocation)))"

fun ProcessInstructionArgument ::
  "CompilationContext \<Rightarrow> OpcodeInfo \<Rightarrow> ArgumentValue \<Rightarrow> error + CompilationContext" where
  "ProcessInstructionArgument s opc NoArgument = Inr s"
| "ProcessInstructionArgument s opc (LabelArgument label) =
     ProcessInstructionArgument_label s opc label"
| "ProcessInstructionArgument s opc (DataArgument data) =
     ProcessInstructionArgument_data s opc data"

text \<open>
  The \<open>try\<close> block of \<open>ParseInstruction\<close>: \<open>variants.at(selected_mode)\<close> (which throws when
  the mode is not a key), the opcode byte at the cursor, the cursor advanced by one, then
  the argument. Whatever is thrown inside is caught and thrown again as
  "opcode does not support mode".
\<close>

definition emit_instruction ::
  "CompilationContext \<Rightarrow> InstructionParsingInfo \<Rightarrow> AddressMode \<Rightarrow> ArgumentValue
     \<Rightarrow> error + CompilationContext" where
  "emit_instruction s instruction selected_mode arg_value =
     (case map_of (variants instruction) selected_mode of
        None \<Rightarrow> Inl OutOfRange
      | Some opc \<Rightarrow>
          (case PutByte (sparse_binary_code (program s)) (current_position s) (opcode opc) False of
             Inl e \<Rightarrow> Inl e
           | Inr sparse_map \<Rightarrow>
               ProcessInstructionArgument
                 ((store_code s sparse_map)\<lparr>current_position := current_position s + 1\<rparr>)
                 opc arg_value))"

definition ParseInstruction ::
  "CompilationContext \<Rightarrow> InstructionArgument \<Rightarrow> InstructionParsingInfo
     \<Rightarrow> error + CompilationContext" where
  "ParseInstruction s argument instruction =
     (let instruction_address_modes = map fst (variants instruction);
          address_modes = set_intersection (possible_address_modes argument)
                            instruction_address_modes
      in case SelectInstuctionVariant address_modes (argument_value argument) of
           Inl e \<Rightarrow> Inl e
         | Inr selected_mode \<Rightarrow>
             (case emit_instruction s instruction selected_mode (argument_value argument) of
                Inl e \<Rightarrow> Inl (OpcodeDoesNotSupportMode e)
              | Inr s' \<Rightarrow> Inr s'))"

subsection \<open>Assembling a source\<close>

text \<open>
  Modelled from the spec: the tokenizer, the line loop and the finalization of the
  assembler are not part of the sources. The spec: a source is a sequence of elements, a
  label definition \<open>NAME:\<close>, a directive \<open>.org\<close>, \<open>.byte\<close> or \<open>.word\<close>, or a mnemonic with
  its operand; the cursor starts at 0; and the assembler aborts at the first error.
\<close>

datatype SourceElement =
    LabelDefinition string
  | ByteDirective "8 word list"
  | WordDirective "16 word list"
  | OriginDirective "16 word"
  | Instruction InstructionParsingInfo InstructionArgument

fun ProcessElement :: "CompilationContext \<Rightarrow> SourceElement \<Rightarrow> error + CompilationContext" where
  "ProcessElement s (LabelDefinition nm) = AddLabel s nm"
| "ProcessElement s (ByteDirective toks) = ParseByteCommand s toks"
| "ProcessElement s (WordDirective toks) = ParseWordCommand s toks"
| "ProcessElement s (OriginDirective new_pos) = ParseOriginCommand s new_pos"
| "ProcessElement s (Instruction instruction argument) = ParseInstruction s argument instruction"

fun ProcessElements :: "CompilationContext \<Rightarrow> SourceElement list \<Rightarrow> error + CompilationContext" where
  "ProcessElements s [] = Inr s"
| "ProcessElements s (e # es) =
     (case ProcessElement s e of
        Inl err \<Rightarrow> Inl err
      | Inr s' \<Rightarrow> ProcessElements s' es)"

definition initial_context :: CompilationContext where
  "initial_context =
     \<lparr>program = \<lparr>sparse_binary_code = Map.empty, labels = [], relocations = {}\<rparr>,
      current_position = 0\<rparr>"





subsection \<open>Entries of the opcode table and parsed operands\<close>

text \<open>
  The opcode table and the operand parser are inputs of the model. The entries below are
  the documented 6502 encodings of \<open>JMP\<close>, \<open>BNE\<close> and \<open>LDA\<close>; a bare name as operand can
  stand for a zero-page, an absolute or a relative operand, \<open>(name),Y\<close> for an indirect
  indexed one.
\<close>

definition JMP_info :: InstructionParsingInfo where
  "JMP_info =
     \<lparr>variants = [(ABS, \<lparr>opcode = 0x4C, addres_mode = ABS\<rparr>),
                  (ABS_IND, \<lparr>opcode = 0x6C, addres_mode = ABS_IND\<rparr>)]\<rparr>"


definition LDA_info :: InstructionParsingInfo where
  "LDA_info =
     \<lparr>variants = [(IM, \<lparr>opcode = 0xA9, addres_mode = IM\<rparr>),
                  (ZP, \<lparr>opcode = 0xA5, addres_mode = ZP\<rparr>),
                  (ZPX, \<lparr>opcode = 0xB5, addres_mode = ZPX\<rparr>),
                  (ABS, \<lparr>opcode = 0xAD, addres_mode = ABS\<rparr>),
                  (ABSX, \<lparr>opcode = 0xBD, addres_mode = ABSX\<rparr>),
                  (ABSY, \<lparr>opcode = 0xB9, addres_mode = ABSY\<rparr>),
                  (INDX, \<lparr>opcode = 0xA1, addres_mode = INDX\<rparr>),
                  (INDY, \<lparr>opcode = 0xB1, addres_mode = INDY\<rparr>)]\<rparr>"

definition name_operand :: "string \<Rightarrow> InstructionArgument" where
  "name_operand nm =
     \<lparr>possible_address_modes = [ZP, ABS, REL], argument_value = LabelArgument nm\<rparr>"

definition indirect_y_operand :: "string \<Rightarrow> InstructionArgument" where
  "indirect_y_operand nm =
     \<lparr>possible_address_modes = [INDY], argument_value = LabelArgument nm\<rparr>"

section \<open>What a patch site holds\<close>

text \<open>
  The cells a relocation owns: two for an \<open>Absolute\<close> operand, one for every other mode
  (\<open>RelocationSize\<close> in the header).
\<close>

definition patch_site :: "RelocationInfo \<Rightarrow> Address_t set" where
  "patch_site r = (if mode r = Absolute then {position r, position r + 1} else {position r})"

text \<open>
  The bytes at a relocation's position encode an offset under the relocation's mode:
  \<open>Absolute\<close>, the two bytes are the offset in little-endian order; \<open>Relative\<close>, the
  byte read as a signed 8-bit number is the distance from the byte after the patch
  position (an address, so \<open>position + 1\<close> is taken in 16 bits) to the offset;
  \<open>ZeroPage\<close>, the byte is the offset.
\<close>

definition encodes :: "SparseBinaryCode \<Rightarrow> RelocationInfo \<Rightarrow> Address_t \<Rightarrow> bool" where
  "encodes sparse_map r off =
     (case mode r of
        Absolute \<Rightarrow>
          (case (sparse_map (position r), sparse_map (position r + 1)) of
             (Some lo, Some hi) \<Rightarrow> unat lo + 256 * unat hi = unat off
           | _ \<Rightarrow> False)
      | Relative \<Rightarrow>
          (case sparse_map (position r) of
             Some b \<Rightarrow> sint b = uint off - uint (position r + 1)
           | None \<Rightarrow> False)
      | ZeroPage \<Rightarrow>
          (case sparse_map (position r) of
             Some b \<Rightarrow> unat b = unat off
           | None \<Rightarrow> False))"

subsection \<open>The invariant of the compilation context\<close>

text \<open>
  Every patch site is defined in the image; the patch sites of two relocations do not
  overlap; every relocation is listed by its target label and every label lists only
  relocations of the program that target it; no relocation has mode \<open>ZeroPage\<close>; every
  relocation whose target has an offset holds that offset, encoded; every relocation
  whose target has no offset yet holds the placeholder the reference wrote, which is the
  cursor of the reference (\<open>offset.value_or(current_position)\<close>), that is its own
  position, encoded; and a label is marked imported exactly as long as it has no offset.
\<close>

definition sites_defined :: "CompilationContext \<Rightarrow> bool" where
  "sites_defined s =
     (\<forall>r \<in> relocations (program s). patch_site r \<subseteq> dom (sparse_binary_code (program s)))"

definition sites_disjoint :: "CompilationContext \<Rightarrow> bool" where
  "sites_disjoint s =
     (\<forall>r \<in> relocations (program s). \<forall>r' \<in> relocations (program s).
        r \<noteq> r' \<longrightarrow> patch_site r \<inter> patch_site r' = {})"

definition references_linked :: "CompilationContext \<Rightarrow> bool" where
  "references_linked s =
     ((\<forall>r \<in> relocations (program s).
         \<exists>l. find_label s (target_label r) = Some l \<and> r \<in> set (label_references l))
      \<and> (\<forall>n l. find_label s n = Some l \<longrightarrow>
             name l = n
             \<and> (\<forall>r \<in> set (label_references l).
                   r \<in> relocations (program s) \<and> target_label r = n)))"

definition modes_recorded :: "CompilationContext \<Rightarrow> bool" where
  "modes_recorded s = (\<forall>r \<in> relocations (program s). mode r \<noteq> ZeroPage)"

definition offsets_encoded :: "CompilationContext \<Rightarrow> bool" where
  "offsets_encoded s =
     (\<forall>r \<in> relocations (program s). \<forall>l off.
        find_label s (target_label r) = Some l \<longrightarrow> offset l = Some off \<longrightarrow>
        encodes (sparse_binary_code (program s)) r off)"

definition placeholders_kept :: "CompilationContext \<Rightarrow> bool" where
  "placeholders_kept s =
     (\<forall>r \<in> relocations (program s). \<forall>l.
        find_label s (target_label r) = Some l \<longrightarrow> offset l = None \<longrightarrow>
        encodes (sparse_binary_code (program s)) r (position r))"

definition imports_open :: "CompilationContext \<Rightarrow> bool" where
  "imports_open s = (\<forall>n l. find_label s n = Some l \<longrightarrow> (imported l \<longleftrightarrow> offset l = None))"

definition context_invariant :: "CompilationContext \<Rightarrow> bool" where
  "context_invariant s =
     (sites_defined s \<and> sites_disjoint s \<and> references_linked s \<and> modes_recorded s
      \<and> offsets_encoded s \<and> placeholders_kept s \<and> imports_open s)"

subsection \<open>An example source\<close>


subsection \<open>Example contexts\<close>







section \<open>Properties of the memory\<close>

lemma unat_of_nat_MemPtr: "i < 65536 \<Longrightarrow> unat (of_nat i :: MemPtr) = i"
  by (simp add: unat_of_nat)

lemma copy_in_at:
  "i + length bs \<le> 65536 \<Longrightarrow>
   copy_in bs i a x =
     (if i \<le> unat x \<and> unat x < i + length bs then bs ! (unat x - i) else a x)"
proof (induction bs arbitrary: i a)
  case Nil
  then show ?case by auto
next
  case (Cons b bs)
  have i: "i < 65536" using Cons.prems by simp
  have eq: "(x = of_nat i) = (unat x = i)"
    using unat_of_nat_MemPtr [OF i] by (simp add: word_unat_eq_iff)
  have "copy_in (b # bs) i a x = copy_in bs (Suc i) (a(of_nat i := b)) x"
    by simp
  also have "\<dots> = (if Suc i \<le> unat x \<and> unat x < Suc i + length bs
                   then bs ! (unat x - Suc i) else (a(of_nat i := b)) x)"
    using Cons.prems by (intro Cons.IH) simp
  also have "\<dots> = (if i \<le> unat x \<and> unat x < i + length (b # bs)
                   then (b # bs) ! (unat x - i) else a x)"
    by (auto simp: eq nth_Cons' Suc_diff_Suc)
  finally show ?case .
qed

lemma copy_in_inside:
  assumes "unat addr + length bs \<le> 65536" and "k < length bs"
  shows "copy_in bs (unat addr) a (addr + of_nat k) = bs ! k"
proof -
  have "unat (addr + of_nat k) = unat addr + k"
    using assms by (simp add: unat_word_ariths unat_of_nat)
  then show ?thesis
    using assms by (simp add: copy_in_at)
qed

text \<open>
  C8: every single-byte bus access, \<open>Load(address)\<close> and \<open>Store(address, data)\<close>, makes
  exactly one call of \<open>WaitForNextCycle\<close> on the clock and so advances the cycle counter by
  exactly one tick, whatever the 16-bit address. \<open>Load\<close> returns the byte of the array
  at the address and leaves the array as it was; \<open>Store\<close> changes the array at the
  address only.
\<close>

theorem bus_access_one_tick:
  "clock (snd (Load m address)) = WaitForNextCycle (clock m)
   \<and> CurrentCycle (clock (snd (Load m address))) = CurrentCycle (clock m) + 1
   \<and> fst (Load m address) = mem m address
   \<and> mem (snd (Load m address)) = mem m
   \<and> clock (Store m address data) = WaitForNextCycle (clock m)
   \<and> CurrentCycle (clock (Store m address data)) = CurrentCycle (clock m) + 1
   \<and> mem (Store m address data) = (mem m)(address := data)"
  by (simp add: Load_def Store_def WaitForNextCycle_def CurrentCycle_def Let_def)

text \<open>
  C10: the bulk operations \<open>Write(addr, data)\<close> and \<open>ReadRange(addr, len)\<close> copy bytes
  straight into and out of the backing array and leave the clock as it was (no call of
  \<open>WaitForNextCycle\<close>), whereas \<open>Load\<close> and \<open>Store\<close> change the clock. Both return
  whenever the range lies inside the array.
\<close>

theorem bulk_access_keeps_clock:
  assumes "unat addr + length data \<le> 65536" and "unat addr + len \<le> 65536"
  shows "\<exists>m' bytes.
           Write m addr data = Some m'
           \<and> clock m' = clock m
           \<and> (\<forall>k < length data. mem m' (addr + of_nat k) = data ! k)
           \<and> (\<forall>a. unat a < unat addr \<or> unat addr + length data \<le> unat a
                  \<longrightarrow> mem m' a = mem m a)
           \<and> ReadRange m addr len = Some (bytes, m)
           \<and> length bytes = len
           \<and> (\<forall>k < len. bytes ! k = mem m (addr + of_nat k))
           \<and> clock (snd (Load m addr)) \<noteq> clock m
           \<and> clock (Store m addr b) \<noteq> clock m"
proof -
  let ?m' = "m\<lparr>mem := copy_in data (unat addr) (mem m)\<rparr>"
  let ?bytes = "map (\<lambda>i. mem m (of_nat i)) [unat addr ..< unat addr + len]"
  have w: "Write m addr data = Some ?m'"
    using assms(1) by (simp add: Write_def)
  have inside: "\<forall>k < length data. mem ?m' (addr + of_nat k) = data ! k"
    using assms(1) by (simp add: copy_in_inside)
  have outside: "\<forall>a. unat a < unat addr \<or> unat addr + length data \<le> unat a
                  \<longrightarrow> mem ?m' a = mem m a"
    using assms(1) by (auto simp: copy_in_at)
  have r: "ReadRange m addr len = Some (?bytes, m)"
    using assms(2) by (simp add: ReadRange_def)
  have rb: "\<forall>k < len. ?bytes ! k = mem m (addr + of_nat k)"
    by simp
  have "current_cycle (clock (snd (Load m addr))) \<noteq> current_cycle (clock m)"
    and "current_cycle (clock (Store m addr b)) \<noteq> current_cycle (clock m)"
    by (simp_all add: Load_def Store_def WaitForNextCycle_def Let_def)
  then have tick: "clock (snd (Load m addr)) \<noteq> clock m" "clock (Store m addr b) \<noteq> clock m"
    by auto
  show ?thesis
    using w inside outside r rb tick by (intro exI [of _ ?m'] exI [of _ ?bytes]) simp
qed

theorem bulk_access_keeps_clock_witness:
  "\<exists>m' bytes.
     Write (Memory_init \<lparr>current_cycle = 7\<rparr>) 0x1770 [0xA9, 0x05] = Some m'
     \<and> CurrentCycle (clock m') = 7
     \<and> mem m' 0x1770 = 0xA9 \<and> mem m' 0x1771 = 0x05 \<and> mem m' 0x1772 = 0x55
     \<and> ReadRange m' 0x1770 3 = Some (bytes, m')
     \<and> bytes = [0xA9, 0x05, 0x55]"
proof -
  let ?m = "Memory_init \<lparr>current_cycle = 7\<rparr>"
  have h1: "unat (0x1770 :: MemPtr) + length [0xA9, 0x05 :: 8 word] \<le> 65536"
    and h2: "unat (0x1770 :: MemPtr) + 0 \<le> 65536"
    by simp_all
  obtain m' where w: "Write ?m 0x1770 [0xA9, 0x05] = Some m'"
    and c: "clock m' = clock ?m"
    and inside: "\<forall>k < length [0xA9, 0x05 :: 8 word]. mem m' (0x1770 + of_nat k) = [0xA9, 0x05] ! k"
    and outside: "\<forall>a. unat a < unat (0x1770 :: MemPtr)
                      \<or> unat (0x1770 :: MemPtr) + length [0xA9, 0x05 :: 8 word] \<le> unat a
                    \<longrightarrow> mem m' a = mem ?m a"
    using bulk_access_keeps_clock [OF h1 h2, of ?m 0] by blast
  have h3: "unat (0x1770 :: MemPtr) + length ([] :: 8 word list) \<le> 65536"
    and h4: "unat (0x1770 :: MemPtr) + 3 \<le> 65536"
    by simp_all
  obtain bytes where r: "ReadRange m' 0x1770 3 = Some (bytes, m')"
    and len: "length bytes = 3"
    and rb: "\<forall>k < 3. bytes ! k = mem m' (0x1770 + of_nat k)"
    using bulk_access_keeps_clock [OF h3 h4, of m' 0] by blast
  have b0: "mem m' 0x1770 = 0xA9" using inside [rule_format, of 0] by simp
  have b1: "mem m' 0x1771 = 0x05" using inside [rule_format, of 1] by simp
  have b2: "mem m' 0x1772 = 0x55" using outside [rule_format, of "0x1772"] by (simp add: Memory_init_def)
  have "bytes ! 0 = 0xA9" "bytes ! 1 = 0x05" "bytes ! 2 = 0x55"
    using rb [rule_format, of 0] rb [rule_format, of 1] rb [rule_format, of 2] b0 b1 b2 by simp_all
  then have "bytes = [0xA9, 0x05, 0x55]"
    using len by (simp add: list_eq_iff_nth_eq numeral_3_eq_3 numeral_2_eq_2 less_Suc_eq)
  then show ?thesis
    using w c r b0 b1 b2 by (simp add: Memory_init_def CurrentCycle_def)
qed

section \<open>The assembler keeps its invariant\<close>

lemma find_label_store_label [simp]:
  "find_label (store_label s k l) n = (if n = k then Some l else find_label s n)"
  by (simp add: find_label_def store_label_def update_conv')

lemma store_label_fields [simp]:
  "sparse_binary_code (program (store_label s k l)) = sparse_binary_code (program s)"
  "relocations (program (store_label s k l)) = relocations (program s)"
  "current_position (store_label s k l) = current_position s"
  by (simp_all add: store_label_def)

lemma store_code_fields [simp]:
  "sparse_binary_code (program (store_code s m)) = m"
  "relocations (program (store_code s m)) = relocations (program s)"
  "labels (program (store_code s m)) = labels (program s)"
  "find_label (store_code s m) = find_label s"
  "current_position (store_code s m) = current_position s"
  by (simp_all add: store_code_def find_label_def fun_eq_iff)

lemma find_label_current_position [simp]:
  "find_label (s\<lparr>current_position := p\<rparr>) = find_label s"
  by (simp add: find_label_def fun_eq_iff)

lemma insert_relocation_fields [simp]:
  "sparse_binary_code (program (insert_relocation s r)) = sparse_binary_code (program s)"
  "relocations (program (insert_relocation s r)) = insert r (relocations (program s))"
  "find_label (insert_relocation s r) = find_label s"
  "current_position (insert_relocation s r) = current_position s"
  by (simp_all add: insert_relocation_def find_label_def fun_eq_iff)

lemma add_reference_fields [simp]:
  "sparse_binary_code (program (add_reference s n r)) = sparse_binary_code (program s)"
  "relocations (program (add_reference s n r)) = relocations (program s)"
  "current_position (add_reference s n r) = current_position s"
  by (simp_all add: add_reference_def split: option.splits)

lemma PutBytes_keeps:
  "PutBytes m a bs False = Inr m' \<Longrightarrow> m x \<noteq> None \<Longrightarrow> m' x = m x"
proof (induction bs arbitrary: m a)
  case Nil
  then show ?case by simp
next
  case (Cons b bs)
  from Cons.prems(1) have free: "m a = None"
    and rest: "PutBytes (m(a \<mapsto> b)) (a + 1) bs False = Inr m'"
    by (auto simp: PutByte_def split: if_splits)
  have "x \<noteq> a" using free Cons.prems(2) by auto
  then have "(m(a \<mapsto> b)) x \<noteq> None" using Cons.prems(2) by simp
  from Cons.IH [OF rest this] \<open>x \<noteq> a\<close> show ?case by simp
qed

lemma PutBytes_1: "PutBytes m a [b] False = Inr m' \<Longrightarrow> m a = None \<and> m' = m(a \<mapsto> b)"
  by (auto simp: PutByte_def split: if_splits)

lemma PutBytes_2:
  "PutBytes m a [b, c] False = Inr m' \<Longrightarrow>
   m a = None \<and> m (a + 1) = None \<and> m' = m(a \<mapsto> b, a + 1 \<mapsto> c)"
  by (auto simp: PutByte_def split: if_splits)

lemma ToBytes16_value:
  "unat (ucast (and v 0xFF) :: 8 word) + 256 * unat (ucast (drop_bit 8 v) :: 8 word) = unat (v :: 16 word)"
proof -
  have m: "(0xFF :: 16 word) = mask 8" by (simp add: mask_eq_exp_minus_1)
  have "unat (and v 0xFF) = unat v mod 256"
    unfolding m by (simp add: unat_mod_distrib take_bit_eq_mod flip: take_bit_eq_mask)
  then have lo: "unat (ucast (and v 0xFF) :: 8 word) = unat v mod 256"
    by (simp add: unsigned_ucast_eq take_bit_eq_mod)
  have "unat v < 65536" using unsigned_less [of v, where ?'a = nat] by simp
  then have "unat v div 256 < 256" by simp
  then have hi: "unat (ucast (drop_bit 8 v) :: 8 word) = unat v div 256"
    by (simp add: unsigned_ucast_eq unat_drop_bit_eq drop_bit_eq_div take_bit_eq_mod unat_div_distrib)
  show ?thesis unfolding lo hi by simp
qed

lemma sint_near: "- 128 \<le> d \<Longrightarrow> d \<le> 127 \<Longrightarrow> sint (word_of_int d :: 8 word) = d"
  by (simp add: signed_of_int signed_take_bit_int_eq_self)

lemma store_code_same [simp]: "store_code s (sparse_binary_code (program s)) = s"
  by (simp add: store_code_def)

lemma store_code_twice [simp]: "store_code (store_code s m) m' = store_code s m'"
  by (simp add: store_code_def)

lemma encodes_agree:
  "\<forall>x \<in> patch_site r. m x = m' x \<Longrightarrow> encodes m r off = encodes m' r off"
  by (cases "mode r") (simp_all add: encodes_def patch_site_def)

lemma relocate_reference_result:
  assumes "relocate_reference s r = Inr s1" and "mode r \<noteq> ZeroPage"
  shows "\<exists>m1. s1 = store_code s m1
           \<and> (\<forall>x. x \<notin> patch_site r \<longrightarrow> m1 x = sparse_binary_code (program s) x)
           \<and> (\<forall>x. sparse_binary_code (program s) x \<noteq> None \<longrightarrow> m1 x \<noteq> None)
           \<and> encodes m1 r (current_position s)"
proof (cases "mode r = Absolute")
  case True
  let ?m = "sparse_binary_code (program s)"
  let ?lo = "ucast (and (current_position s) 0xFF) :: 8 word"
  let ?hi = "ucast (drop_bit 8 (current_position s)) :: 8 word"
  let ?m1 = "?m(position r \<mapsto> ?lo, position r + 1 \<mapsto> ?hi)"
  have s1: "s1 = store_code s ?m1"
    using assms(1) True
    by (simp add: relocate_reference_def ToBytes16_def PutByte_def)
  have enc: "encodes ?m1 r (current_position s)"
    using True by (simp add: encodes_def ToBytes16_value)
  show ?thesis
    using s1 enc True by (intro exI [of _ ?m1]) (simp add: patch_site_def)
next
  case False
  let ?m = "sparse_binary_code (program s)"
  let ?delta = "uint (current_position s) - uint (position r + 1)"
  let ?m1 = "?m(position r \<mapsto> word_of_int ?delta)"
  from False assms(2) have rel: "mode r = Relative" by (cases "mode r") simp_all
  have range: "- 128 \<le> ?delta \<and> ?delta \<le> 127" and s1: "s1 = store_code s ?m1"
    using assms(1) False
    by (auto simp: relocate_reference_def RelativeJumpOffset_def ToBytes8_def
        PutByte_def Let_def split: if_splits)
  have "sint (word_of_int ?delta :: 8 word) = ?delta"
    using range by (intro sint_near) simp_all
  then have enc: "encodes ?m1 r (current_position s)"
    using rel by (simp add: encodes_def)
  show ?thesis
    using s1 enc False by (intro exI [of _ ?m1]) (simp add: patch_site_def)
qed

lemma relocate_references_result:
  assumes "relocate_references s refs = Inr s'"
    and "\<forall>r \<in> set refs. \<forall>r' \<in> set refs. r \<noteq> r' \<longrightarrow> patch_site r \<inter> patch_site r' = {}"
    and "\<forall>r \<in> set refs. mode r \<noteq> ZeroPage"
  shows "\<exists>m'. s' = store_code s m'
           \<and> (\<forall>x. x \<notin> \<Union> (patch_site ` set refs) \<longrightarrow> m' x = sparse_binary_code (program s) x)
           \<and> (\<forall>x. sparse_binary_code (program s) x \<noteq> None \<longrightarrow> m' x \<noteq> None)
           \<and> (\<forall>r \<in> set refs. encodes m' r (current_position s))"
  using assms
proof (induction refs arbitrary: s)
  case Nil
  then show ?case by (intro exI [of _ "sparse_binary_code (program s)"]) simp
next
  case (Cons r rs)
  from Cons.prems(1) obtain s1 where one: "relocate_reference s r = Inr s1"
    and rest: "relocate_references s1 rs = Inr s'"
    by (auto split: sum.splits)
  from relocate_reference_result [OF one] Cons.prems(3) obtain m1
    where s1: "s1 = store_code s m1"
      and out1: "\<forall>x. x \<notin> patch_site r \<longrightarrow> m1 x = sparse_binary_code (program s) x"
      and dom1: "\<forall>x. sparse_binary_code (program s) x \<noteq> None \<longrightarrow> m1 x \<noteq> None"
      and enc1: "encodes m1 r (current_position s)"
    by auto
  have "\<forall>r \<in> set rs. \<forall>r' \<in> set rs. r \<noteq> r' \<longrightarrow> patch_site r \<inter> patch_site r' = {}"
    and "\<forall>r \<in> set rs. mode r \<noteq> ZeroPage"
    using Cons.prems(2,3) by auto
  from Cons.IH [OF rest this] obtain m'
    where s': "s' = store_code s1 m'"
      and out: "\<forall>x. x \<notin> \<Union> (patch_site ` set rs) \<longrightarrow> m' x = m1 x"
      and dom: "\<forall>x. m1 x \<noteq> None \<longrightarrow> m' x \<noteq> None"
      and enc: "\<forall>r \<in> set rs. encodes m' r (current_position s)"
    by (auto simp: s1)
  have "encodes m' r (current_position s)"
  proof (cases "r \<in> set rs")
    case True
    then show ?thesis using enc by simp
  next
    case False
    then have "\<forall>r' \<in> set rs. patch_site r \<inter> patch_site r' = {}"
      using Cons.prems(2) by auto
    then have "\<forall>x \<in> patch_site r. m' x = m1 x"
      using out by blast
    from encodes_agree [OF this] enc1 show ?thesis by simp
  qed
  then show ?case
    using s' s1 out out1 dom dom1 enc by (intro exI [of _ m']) simp
qed

lemmas invariant_defs =
  context_invariant_def sites_defined_def sites_disjoint_def references_linked_def
  modes_recorded_def offsets_encoded_def placeholders_kept_def imports_open_def

lemma context_invariant_initial: "context_invariant initial_context"
  by (simp add: invariant_defs initial_context_def find_label_def)

lemma context_invariant_program:
  "program s' = program s \<Longrightarrow> context_invariant s' = context_invariant s"
  by (simp add: invariant_defs find_label_def)

lemma context_invariant_current_position [simp]:
  "context_invariant (s\<lparr>current_position := p\<rparr>) = context_invariant s"
  by (rule context_invariant_program) simp

text \<open>Writing cells that were undefined keeps the invariant.\<close>

lemma context_invariant_store_code:
  assumes "context_invariant s"
    and "\<forall>x. sparse_binary_code (program s) x \<noteq> None \<longrightarrow> m x = sparse_binary_code (program s) x"
  shows "context_invariant (store_code s m)"
proof -
  let ?old = "sparse_binary_code (program s)"
  have defined: "patch_site r \<subseteq> dom ?old" if "r \<in> relocations (program s)" for r
    using assms(1) that by (simp add: context_invariant_def sites_defined_def)
  have agree: "\<forall>x \<in> patch_site r. m x = ?old x" if "r \<in> relocations (program s)" for r
    using defined [OF that] assms(2) by auto
  have "sites_defined (store_code s m)"
    unfolding sites_defined_def
  proof
    fix r assume r: "r \<in> relocations (program (store_code s m))"
    then have "r \<in> relocations (program s)" by simp
    from defined [OF this] agree [OF this]
    show "patch_site r \<subseteq> dom (sparse_binary_code (program (store_code s m)))"
      by (auto simp: dom_def)
  qed
  moreover have "sites_disjoint (store_code s m)"
    using assms(1) by (simp add: context_invariant_def sites_disjoint_def)
  moreover have "references_linked (store_code s m)"
    using assms(1) by (simp add: context_invariant_def references_linked_def)
  moreover have "modes_recorded (store_code s m)"
    using assms(1) by (simp add: context_invariant_def modes_recorded_def)
  moreover have "offsets_encoded (store_code s m)"
    using assms(1) encodes_agree [OF agree]
    by (simp add: context_invariant_def offsets_encoded_def)
  moreover have "placeholders_kept (store_code s m)"
    using assms(1) encodes_agree [OF agree]
    by (simp add: context_invariant_def placeholders_kept_def)
  moreover have "imports_open (store_code s m)"
    using assms(1) by (simp add: context_invariant_def imports_open_def)
  ultimately show ?thesis
    by (simp add: context_invariant_def)
qed

lemma PutByte_keeps:
  "PutByte m a b False = Inr m' \<Longrightarrow> m x \<noteq> None \<Longrightarrow> m' x = m x"
  by (auto simp: PutByte_def split: if_splits)

lemma ParseByteCommand_invariant:
  "context_invariant s \<Longrightarrow> ParseByteCommand s toks = Inr s' \<Longrightarrow> context_invariant s'"
proof (induction toks arbitrary: s)
  case Nil
  then show ?case by simp
next
  case (Cons tok toks)
  from Cons.prems(2) obtain m
    where put: "PutBytes (sparse_binary_code (program s)) (current_position s) (ToBytes8 tok) False = Inr m"
      and rest: "ParseByteCommand ((store_code s m)\<lparr>current_position := current_position s + 1\<rparr>) toks = Inr s'"
    by (auto split: sum.splits)
  have "context_invariant (store_code s m)"
    using Cons.prems(1) PutBytes_keeps [OF put] by (intro context_invariant_store_code) simp_all
  then show ?case
    by (intro Cons.IH [OF _ rest]) simp
qed

lemma ParseWordCommand_invariant:
  "context_invariant s \<Longrightarrow> ParseWordCommand s toks = Inr s' \<Longrightarrow> context_invariant s'"
proof (induction toks arbitrary: s)
  case Nil
  then show ?case by simp
next
  case (Cons tok toks)
  from Cons.prems(2) obtain m
    where put: "PutBytes (sparse_binary_code (program s)) (current_position s) (ToBytes16 tok) False = Inr m"
      and rest: "ParseWordCommand ((store_code s m)\<lparr>current_position := current_position s + 2\<rparr>) toks = Inr s'"
    by (auto split: sum.splits)
  have "context_invariant (store_code s m)"
    using Cons.prems(1) PutBytes_keeps [OF put] by (intro context_invariant_store_code) simp_all
  then show ?case
    by (intro Cons.IH [OF _ rest]) simp
qed

lemma find_label_add_reference:
  "find_label (add_reference s label r) n =
           (if n = label
            then Some (case find_label s label of
                         None \<Rightarrow> \<lparr>name = label, offset = None, imported = True,
                                   label_references = [r]\<rparr>
                       | Some l \<Rightarrow> l\<lparr>label_references := label_references l @ [r]\<rparr>)
            else find_label s n)"
  by (simp add: add_reference_def split: option.splits)

text \<open>Recording a relocation whose patch site was undefined before keeps the invariant.\<close>

lemma context_invariant_add_relocation:
  assumes inv: "context_invariant s"
    and target: "target_label r0 = label"
    and mode0: "mode r0 \<noteq> ZeroPage"
    and free: "patch_site r0 \<inter> dom (sparse_binary_code (program s)) = {}"
    and keeps: "\<forall>x. sparse_binary_code (program s) x \<noteq> None \<longrightarrow> m x = sparse_binary_code (program s) x"
    and site0: "patch_site r0 \<subseteq> dom m"
    and enc0: "\<forall>l off. find_label s label = Some l \<longrightarrow> offset l = Some off \<longrightarrow> encodes m r0 off"
    and held0: "(\<forall>l. find_label s label = Some l \<longrightarrow> offset l = None) \<longrightarrow>
                  encodes m r0 (position r0)"
  shows "context_invariant (insert_relocation (store_code (add_reference s label r0) m) r0)"
proof -
  let ?old = "sparse_binary_code (program s)"
  let ?R = "relocations (program s)"
  define s' where "s' = insert_relocation (store_code (add_reference s label r0) m) r0"
  define l0 where "l0 = (case find_label s label of
               None \<Rightarrow> \<lparr>name = label, offset = None, imported = True, label_references = [r0]\<rparr>
             | Some l \<Rightarrow> l\<lparr>label_references := label_references l @ [r0]\<rparr>)"
  from inv have linked: "references_linked s" and enc: "offsets_encoded s"
    and def: "sites_defined s" and disj: "sites_disjoint s" and modes: "modes_recorded s"
    and imp: "imports_open s" and held: "placeholders_kept s"
    by (simp_all add: context_invariant_def)
  have names: "\<forall>l. find_label s label = Some l \<longrightarrow> name l = label"
    using linked by (simp add: references_linked_def)
  have find: "find_label s' n = (if n = label then Some l0 else find_label s n)" for n
    unfolding s'_def l0_def by (simp add: find_label_add_reference)
  have rels: "relocations (program s') = insert r0 ?R" and img: "sparse_binary_code (program s') = m"
    by (simp_all add: s'_def)
  have l0_cases: "(find_label s label = None \<and> l0 = \<lparr>name = label, offset = None, imported = True, label_references = [r0]\<rparr>)
     \<or> (\<exists>l. find_label s label = Some l \<and> l0 = l\<lparr>label_references := label_references l @ [r0]\<rparr>)"
    unfolding l0_def by (cases "find_label s label") simp_all
  have name0: "name l0 = label"
    using l0_cases names by auto
  have in0: "r0 \<in> set (label_references l0)"
    using l0_cases by auto
  have refs0: "r = r0 \<or> (\<exists>l. find_label s label = Some l \<and> r \<in> set (label_references l))"
    if "r \<in> set (label_references l0)" for r
    using l0_cases that by auto
  have refs0': "r \<in> set (label_references l0)"
    if "find_label s label = Some l" "r \<in> set (label_references l)" for r l
    using l0_cases that by auto
  have offset0: "\<exists>l. find_label s label = Some l \<and> offset l = Some off"
    if "offset l0 = Some off" for off
    using l0_cases that by auto
  have no_offset0: "\<forall>l. find_label s label = Some l \<longrightarrow> offset l = None"
    if "offset l0 = None"
    using l0_cases that by auto
  have same_offset0: "offset l0 = offset l" if "find_label s label = Some l" for l
    using l0_cases that by auto
  have imported0: "imported l0 \<longleftrightarrow> offset l0 = None"
  proof -
    from l0_cases show ?thesis
    proof
      assume "find_label s label = None \<and> l0 = \<lparr>name = label, offset = None, imported = True, label_references = [r0]\<rparr>"
      then show ?thesis by simp
    next
      assume "\<exists>l. find_label s label = Some l \<and> l0 = l\<lparr>label_references := label_references l @ [r0]\<rparr>"
      then obtain l where "find_label s label = Some l" "l0 = l\<lparr>label_references := label_references l @ [r0]\<rparr>"
        by blast
      then show ?thesis using imp by (simp add: imports_open_def)
    qed
  qed
  have defined: "patch_site r \<subseteq> dom ?old" if "r \<in> ?R" for r
    using def that by (simp add: sites_defined_def)
  have agree: "\<forall>x \<in> patch_site r. m x = ?old x" if "r \<in> ?R" for r
    using defined [OF that] keeps by auto
  have old_link: "\<exists>l. find_label s (target_label r) = Some l \<and> r \<in> set (label_references l)"
    if "r \<in> ?R" for r
    using linked that by (simp add: references_linked_def)
  have old_refs: "name l = n \<and> r \<in> ?R \<and> target_label r = n"
    if "find_label s n = Some l" "r \<in> set (label_references l)" for n l r
    using linked that unfolding references_linked_def by blast
  have old_name: "name l = n" if "find_label s n = Some l" for n l
    using linked that unfolding references_linked_def by blast
  have c1: "sites_defined s'"
    unfolding sites_defined_def rels img
  proof
    fix r assume "r \<in> insert r0 ?R"
    then show "patch_site r \<subseteq> dom m"
    proof
      assume "r = r0" then show ?thesis using site0 by simp
    next
      assume "r \<in> ?R"
      from defined [OF this] agree [OF this] show ?thesis by (auto simp: dom_def)
    qed
  qed
  have apart: "patch_site r \<inter> patch_site r0 = {}" if "r \<in> ?R" for r
    using defined [OF that] free by auto
  have c2: "sites_disjoint s'"
    unfolding sites_disjoint_def rels
  proof (intro ballI impI)
    fix r r' assume "r \<in> insert r0 ?R" "r' \<in> insert r0 ?R" "r \<noteq> r'"
    then consider "r \<in> ?R" "r' \<in> ?R" | "r = r0" "r' \<in> ?R" | "r \<in> ?R" "r' = r0"
      by auto
    then show "patch_site r \<inter> patch_site r' = {}"
    proof cases
      case 1
      then show ?thesis using disj \<open>r \<noteq> r'\<close> by (simp add: sites_disjoint_def)
    next
      case 2
      then show ?thesis using apart [of r'] by auto
    next
      case 3
      then show ?thesis using apart [of r] by auto
    qed
  qed
  have c3: "references_linked s'"
    unfolding references_linked_def rels
  proof (intro conjI ballI allI impI)
    fix r assume "r \<in> insert r0 ?R"
    then show "\<exists>l. find_label s' (target_label r) = Some l \<and> r \<in> set (label_references l)"
    proof
      assume "r = r0"
      then have "find_label s' (target_label r) = Some l0" "r \<in> set (label_references l0)"
        using target in0 by (simp_all add: find)
      then show ?thesis by blast
    next
      assume "r \<in> ?R"
      from old_link [OF this] obtain l
        where l: "find_label s (target_label r) = Some l" "r \<in> set (label_references l)"
        by blast
      show ?thesis
      proof (cases "target_label r = label")
        case True
        then have "find_label s' (target_label r) = Some l0" "r \<in> set (label_references l0)"
          using l refs0' by (simp_all add: find)
        then show ?thesis by blast
      next
        case False
        then have "find_label s' (target_label r) = Some l"
          using l by (simp add: find)
        then show ?thesis using l by blast
      qed
    qed
  next
    fix n l assume "find_label s' n = Some l"
    then show "name l = n"
      using name0 old_name by (cases "n = label") (simp_all add: find)
  next
    fix n l r assume nl: "find_label s' n = Some l" and r: "r \<in> set (label_references l)"
    show "r \<in> insert r0 ?R"
    proof (cases "n = label")
      case True
      then have "l = l0" using nl by (simp add: find)
      then show ?thesis using refs0 [of r] r old_refs by blast
    next
      case False
      then have "find_label s n = Some l" using nl by (simp add: find)
      then show ?thesis using r old_refs by blast
    qed
  next
    fix n l r assume nl: "find_label s' n = Some l" and r: "r \<in> set (label_references l)"
    show "target_label r = n"
    proof (cases "n = label")
      case True
      then have "l = l0" using nl by (simp add: find)
      then show ?thesis using refs0 [of r] r old_refs target True by blast
    next
      case False
      then have "find_label s n = Some l" using nl by (simp add: find)
      then show ?thesis using r old_refs by blast
    qed
  qed
  have c4: "modes_recorded s'"
    using modes mode0 by (simp add: modes_recorded_def rels)
  have c5: "offsets_encoded s'"
    unfolding offsets_encoded_def rels img
  proof (intro ballI allI impI)
    fix r l off
    assume r: "r \<in> insert r0 ?R" and l: "find_label s' (target_label r) = Some l"
      and off: "offset l = Some off"
    have old: "\<exists>l'. find_label s (target_label r) = Some l' \<and> offset l' = Some off"
    proof (cases "target_label r = label")
      case True
      then have "l = l0" using l by (simp add: find)
      then show ?thesis using off offset0 True by simp
    next
      case False
      then show ?thesis using l off by (simp add: find)
    qed
    show "encodes m r off"
    proof (cases "r = r0")
      case True
      then show ?thesis using old enc0 target by auto
    next
      case False
      then have "r \<in> ?R" using r by simp
      then have "encodes ?old r off"
        using old enc unfolding offsets_encoded_def by blast
      then show ?thesis using encodes_agree [OF agree [OF \<open>r \<in> ?R\<close>]] by simp
    qed
  qed
  have c6: "imports_open s'"
    unfolding imports_open_def
  proof (intro allI impI)
    fix n l assume nl: "find_label s' n = Some l"
    show "imported l \<longleftrightarrow> offset l = None"
    proof (cases "n = label")
      case True
      then have "l = l0" using nl by (simp add: find)
      then show ?thesis using imported0 by simp
    next
      case False
      then have "find_label s n = Some l" using nl by (simp add: find)
      then show ?thesis using imp unfolding imports_open_def by blast
    qed
  qed
  have c7: "placeholders_kept s'"
    unfolding placeholders_kept_def rels img
  proof (intro ballI allI impI)
    fix r l
    assume r: "r \<in> insert r0 ?R" and l: "find_label s' (target_label r) = Some l"
      and none: "offset l = None"
    show "encodes m r (position r)"
    proof (cases "r = r0")
      case True
      then have "l = l0" using l target by (simp add: find)
      then show ?thesis using held0 no_offset0 none True by blast
    next
      case False
      then have in_R: "r \<in> ?R" using r by simp
      from old_link [OF in_R] obtain l'
        where l': "find_label s (target_label r) = Some l'" by blast
      have "offset l' = None"
      proof (cases "target_label r = label")
        case True
        then have "l = l0" using l by (simp add: find)
        then show ?thesis using same_offset0 [of l'] l' True none by simp
      next
        case False
        then show ?thesis using l l' none by (simp add: find)
      qed
      then have "encodes ?old r (position r)"
        using held in_R l' unfolding placeholders_kept_def by blast
      then show ?thesis using encodes_agree [OF agree [OF in_R]] by simp
    qed
  qed
  show ?thesis
    using c1 c2 c3 c4 c5 c6 c7 unfolding s'_def by (simp add: context_invariant_def)
qed

lemma ProcessInstructionArgument_data_invariant:
  assumes "context_invariant s" and "ProcessInstructionArgument_data s opc data = Inr s'"
  shows "context_invariant s'"
proof -
  from assms(2) obtain m
    where put: "PutBytes (sparse_binary_code (program s)) (current_position s) data False = Inr m"
      and s': "s' = (store_code s m)\<lparr>current_position := current_position s + of_nat (length data)\<rparr>"
    by (auto simp: ProcessInstructionArgument_data_def split: sum.splits)
  have "context_invariant (store_code s m)"
    using assms(1) PutBytes_keeps [OF put] by (intro context_invariant_store_code) simp_all
  then show ?thesis by (simp add: s')
qed

text \<open>
  What the label overload does when it succeeds: one relocation at the cursor, the
  operand bytes written to undefined cells, the cursor moved past them.
\<close>

lemma ProcessInstructionArgument_label_result:
  assumes "ProcessInstructionArgument_label s opc label = Inr s'"
  shows "\<exists>r0 m bytes.
           s' = insert_relocation
                  ((store_code (add_reference s label r0) m)
                     \<lparr>current_position := current_position s + of_nat (length bytes)\<rparr>) r0
           \<and> r0 = \<lparr>target_label = label, position = current_position s,
                    mode = (if addres_mode opc = REL then Relative else Absolute)\<rparr>
           \<and> PutBytes (sparse_binary_code (program s)) (current_position s) bytes False = Inr m
           \<and> length bytes = (if addres_mode opc = REL then 1 else 2)
           \<and> encodes m r0
                 (case find_label s label of
                    None \<Rightarrow> current_position s
                  | Some l \<Rightarrow> (case offset l of None \<Rightarrow> current_position s | Some a \<Rightarrow> a))"
proof (cases "addres_mode opc = REL")
  case True
  let ?addr = "case find_label s label of None \<Rightarrow> current_position s
               | Some l \<Rightarrow> (case offset l of None \<Rightarrow> current_position s | Some a \<Rightarrow> a)"
  let ?r0 = "\<lparr>target_label = label, position = current_position s, mode = Relative\<rparr>"
  let ?delta = "uint ?addr - uint (current_position s + 1)"
  from assms True obtain off s1
    where off: "RelativeJumpOffset (current_position s + 1) ?addr = Inr off"
      and data: "ProcessInstructionArgument_data (add_reference s label ?r0) opc (ToBytes8 off) = Inr s1"
      and s': "s' = insert_relocation s1 ?r0"
    by (auto simp: ProcessInstructionArgument_label_def Let_def split: sum.splits)
  from data obtain m
    where put: "PutBytes (sparse_binary_code (program s)) (current_position s) [off] False = Inr m"
      and s1: "s1 = (store_code (add_reference s label ?r0) m)
                      \<lparr>current_position := current_position s + 1\<rparr>"
    by (auto simp: ProcessInstructionArgument_data_def ToBytes8_def split: sum.splits)
  from off have range: "- 128 \<le> ?delta" "?delta \<le> 127" and off_eq: "off = word_of_int ?delta"
    by (auto simp: RelativeJumpOffset_def Let_def split: if_splits)
  have sint: "sint off = ?delta"
    unfolding off_eq using range by (intro sint_near)
  have m: "m = (sparse_binary_code (program s))(current_position s \<mapsto> off)"
    using PutBytes_1 [OF put] by simp
  have "encodes m ?r0 ?addr"
    using sint by (simp add: encodes_def m)
  then show ?thesis
    using True s' s1 put
    by (intro exI [of _ ?r0] exI [of _ m] exI [of _ "[off]"]) simp
next
  case False
  let ?addr = "case find_label s label of None \<Rightarrow> current_position s
               | Some l \<Rightarrow> (case offset l of None \<Rightarrow> current_position s | Some a \<Rightarrow> a)"
  let ?r0 = "\<lparr>target_label = label, position = current_position s, mode = Absolute\<rparr>"
  let ?lo = "ucast (and ?addr 0xFF) :: 8 word"
  let ?hi = "ucast (drop_bit 8 ?addr) :: 8 word"
  from assms False obtain s1
    where data: "ProcessInstructionArgument_data (add_reference s label ?r0) opc (ToBytes16 ?addr) = Inr s1"
      and s': "s' = insert_relocation s1 ?r0"
    by (auto simp: ProcessInstructionArgument_label_def Let_def split: sum.splits)
  from data obtain m
    where put: "PutBytes (sparse_binary_code (program s)) (current_position s) [?lo, ?hi] False = Inr m"
      and s1: "s1 = (store_code (add_reference s label ?r0) m)
                      \<lparr>current_position := current_position s + 2\<rparr>"
    by (auto simp: ProcessInstructionArgument_data_def ToBytes16_def split: sum.splits)
  have m: "m = (sparse_binary_code (program s))(current_position s \<mapsto> ?lo, current_position s + 1 \<mapsto> ?hi)"
    using PutBytes_2 [OF put] by simp
  have "encodes m ?r0 ?addr"
    using ToBytes16_value [of ?addr] by (simp add: encodes_def m)
  then show ?thesis
    using False s' s1 put
    by (intro exI [of _ ?r0] exI [of _ m] exI [of _ "[?lo, ?hi]"]) simp
qed

lemma insert_relocation_current_position:
  "insert_relocation (s\<lparr>current_position := p\<rparr>) r = (insert_relocation s r)\<lparr>current_position := p\<rparr>"
  by (simp add: insert_relocation_def)

lemma ProcessInstructionArgument_label_invariant:
  assumes inv: "context_invariant s" and ok: "ProcessInstructionArgument_label s opc label = Inr s'"
  shows "context_invariant s'"
proof -
  let ?old = "sparse_binary_code (program s)"
  from ProcessInstructionArgument_label_result [OF ok] obtain r0 m bytes
    where s': "s' = insert_relocation
                  ((store_code (add_reference s label r0) m)
                     \<lparr>current_position := current_position s + of_nat (length bytes)\<rparr>) r0"
      and r0: "r0 = \<lparr>target_label = label, position = current_position s,
                    mode = (if addres_mode opc = REL then Relative else Absolute)\<rparr>"
      and put: "PutBytes ?old (current_position s) bytes False = Inr m"
      and len: "length bytes = (if addres_mode opc = REL then 1 else 2)"
      and written: "encodes m r0
                 (case find_label s label of
                    None \<Rightarrow> current_position s
                  | Some l \<Rightarrow> (case offset l of None \<Rightarrow> current_position s | Some a \<Rightarrow> a))"
    by blast
  have enc0: "\<forall>l off. find_label s label = Some l \<longrightarrow> offset l = Some off \<longrightarrow> encodes m r0 off"
    using written by auto
  have pos0: "position r0 = current_position s"
    by (simp add: r0)
  have held0: "(\<forall>l. find_label s label = Some l \<longrightarrow> offset l = None) \<longrightarrow>
                 encodes m r0 (position r0)"
    using written unfolding pos0 by (cases "find_label s label") auto
  have keeps: "\<forall>x. ?old x \<noteq> None \<longrightarrow> m x = ?old x"
    using PutBytes_keeps [OF put] by simp
  have sites: "patch_site r0 \<inter> dom ?old = {} \<and> patch_site r0 \<subseteq> dom m"
  proof (cases "addres_mode opc = REL")
    case True
    then obtain b where "bytes = [b]" using len by (cases bytes) auto
    then show ?thesis using PutBytes_1 [of ?old "current_position s" b m] put True
      by (auto simp: r0 patch_site_def)
  next
    case False
    then obtain b c where "bytes = [b, c]" using len
      by (cases bytes; cases "tl bytes") auto
    then show ?thesis using PutBytes_2 [of ?old "current_position s" b c m] put False
      by (auto simp: r0 patch_site_def)
  qed
  have "context_invariant (insert_relocation (store_code (add_reference s label r0) m) r0)"
    using inv sites keeps enc0 held0
    by (intro context_invariant_add_relocation) (simp_all add: r0)
  then show ?thesis
    by (simp add: s' insert_relocation_current_position)
qed

lemma emit_instruction_invariant:
  assumes inv: "context_invariant s" and ok: "emit_instruction s instruction selected arg = Inr s'"
  shows "context_invariant s'"
proof -
  from ok obtain opc m
    where put: "PutByte (sparse_binary_code (program s)) (current_position s) (opcode opc) False = Inr m"
      and arg: "ProcessInstructionArgument
                  ((store_code s m)\<lparr>current_position := current_position s + 1\<rparr>) opc arg = Inr s'"
    by (auto simp: emit_instruction_def split: option.splits sum.splits)
  have "context_invariant (store_code s m)"
    using inv PutByte_keeps [OF put] by (intro context_invariant_store_code) simp_all
  then have mid: "context_invariant ((store_code s m)\<lparr>current_position := current_position s + 1\<rparr>)"
    by simp
  show ?thesis
  proof (cases arg)
    case NoArgument
    then show ?thesis using arg mid by simp
  next
    case (LabelArgument label)
    then show ?thesis using arg ProcessInstructionArgument_label_invariant [OF mid] by simp
  next
    case (DataArgument data)
    then show ?thesis using arg ProcessInstructionArgument_data_invariant [OF mid] by simp
  qed
qed

lemma ParseInstruction_invariant:
  assumes "context_invariant s" and "ParseInstruction s argument instruction = Inr s'"
  shows "context_invariant s'"
proof -
  from assms(2) obtain selected
    where "emit_instruction s instruction selected (argument_value argument) = Inr s'"
    by (auto simp: ParseInstruction_def Let_def split: sum.splits)
  from emit_instruction_invariant [OF assms(1) this] show ?thesis .
qed

text \<open>Defining a label that is not known yet.\<close>

lemma AddLabel_new_invariant:
  assumes inv: "context_invariant s" and new: "find_label s nm = None"
  shows "context_invariant
           (store_label s nm \<lparr>name = nm, offset = Some p, imported = False, label_references = []\<rparr>)"
proof -
  let ?R = "relocations (program s)"
  define l0 where "l0 = \<lparr>name = nm, offset = Some p, imported = False, label_references = []\<rparr>"
  define s' where "s' = store_label s nm l0"
  from inv have linked: "references_linked s" and enc: "offsets_encoded s"
    and def: "sites_defined s" and disj: "sites_disjoint s" and modes: "modes_recorded s"
    and imp: "imports_open s" and held: "placeholders_kept s"
    by (simp_all add: context_invariant_def)
  have l0: "name l0 = nm" "label_references l0 = []" "offset l0 = Some p" "\<not> imported l0"
    by (simp_all add: l0_def)
  have find: "find_label s' n = (if n = nm then Some l0 else find_label s n)" for n
    by (simp add: s'_def l0)
  have rels: "relocations (program s') = ?R"
    and img: "sparse_binary_code (program s') = sparse_binary_code (program s)"
    by (simp_all add: s'_def)
  have old_link: "\<exists>l. find_label s (target_label r) = Some l \<and> r \<in> set (label_references l)"
    if "r \<in> ?R" for r
    using linked that by (simp add: references_linked_def)
  have old_refs: "name l = n \<and> r \<in> ?R \<and> target_label r = n"
    if "find_label s n = Some l" "r \<in> set (label_references l)" for n l r
    using linked that unfolding references_linked_def by blast
  have old_name: "name l = n" if "find_label s n = Some l" for n l
    using linked that unfolding references_linked_def by blast
  have other: "target_label r \<noteq> nm" if "r \<in> ?R" for r
    using old_link [OF that] new by auto
  have c1: "sites_defined s'" using def by (simp add: sites_defined_def rels img)
  have c2: "sites_disjoint s'" using disj by (simp add: sites_disjoint_def rels)
  have c3: "references_linked s'"
    unfolding references_linked_def rels
  proof (intro conjI ballI allI impI)
    fix r assume r: "r \<in> ?R"
    from old_link [OF r] other [OF r]
    show "\<exists>l. find_label s' (target_label r) = Some l \<and> r \<in> set (label_references l)"
      by (simp add: find)
  next
    fix n l assume "find_label s' n = Some l"
    then show "name l = n"
      using l0 old_name by (cases "n = nm") (simp_all add: find)
  next
    fix n l r assume nl: "find_label s' n = Some l" and r: "r \<in> set (label_references l)"
    then have "n \<noteq> nm" using l0 by (auto simp: find)
    then have "find_label s n = Some l" using nl by (simp add: find)
    then show "r \<in> ?R" using r old_refs by blast
  next
    fix n l r assume nl: "find_label s' n = Some l" and r: "r \<in> set (label_references l)"
    then have "n \<noteq> nm" using l0 by (auto simp: find)
    then have "find_label s n = Some l" using nl by (simp add: find)
    then show "target_label r = n" using r old_refs by blast
  qed
  have c4: "modes_recorded s'" using modes by (simp add: modes_recorded_def rels)
  have c5: "offsets_encoded s'"
    unfolding offsets_encoded_def rels img
  proof (intro ballI allI impI)
    fix r l off
    assume r: "r \<in> ?R" and l: "find_label s' (target_label r) = Some l"
      and off: "offset l = Some off"
    have "find_label s (target_label r) = Some l"
      using l other [OF r] by (simp add: find)
    then show "encodes (sparse_binary_code (program s)) r off"
      using enc r off unfolding offsets_encoded_def by blast
  qed
  have c6: "imports_open s'"
    unfolding imports_open_def
  proof (intro allI impI)
    fix n l assume nl: "find_label s' n = Some l"
    show "imported l \<longleftrightarrow> offset l = None"
    proof (cases "n = nm")
      case True
      then have "l = l0" using nl by (simp add: find)
      then show ?thesis using l0 by simp
    next
      case False
      then have "find_label s n = Some l" using nl by (simp add: find)
      then show ?thesis using imp unfolding imports_open_def by blast
    qed
  qed
  have c7: "placeholders_kept s'"
    unfolding placeholders_kept_def rels img
  proof (intro ballI allI impI)
    fix r l
    assume r: "r \<in> ?R" and l: "find_label s' (target_label r) = Some l"
      and none: "offset l = None"
    have "find_label s (target_label r) = Some l"
      using l other [OF r] by (simp add: find)
    then show "encodes (sparse_binary_code (program s)) r (position r)"
      using held r none unfolding placeholders_kept_def by blast
  qed
  show ?thesis
    using c1 c2 c3 c4 c5 c6 c7 unfolding s'_def l0_def by (simp add: context_invariant_def)
qed

text \<open>
  Defining a label that has been referenced: the label gets the offset, and the image
  \<open>m'\<close> that the relocation loop leaves encodes the offset at every reference.
\<close>

lemma AddLabel_patched_invariant:
  assumes inv: "context_invariant s"
    and l: "find_label s nm = Some l" "offset l = None"
    and out: "\<forall>x. x \<notin> \<Union> (patch_site ` set (label_references l)) \<longrightarrow>
                 m' x = sparse_binary_code (program s) x"
    and dom: "\<forall>x. sparse_binary_code (program s) x \<noteq> None \<longrightarrow> m' x \<noteq> None"
    and enc': "\<forall>r \<in> set (label_references l). encodes m' r p"
  shows "context_invariant (store_code (store_label s nm (l\<lparr>imported := False, offset := Some p\<rparr>)) m')"
proof -
  let ?old = "sparse_binary_code (program s)"
  let ?R = "relocations (program s)"
  define l2 where "l2 = l\<lparr>imported := False, offset := Some p\<rparr>"
  define s' where "s' = store_code (store_label s nm l2) m'"
  from inv have linked: "references_linked s" and enc: "offsets_encoded s"
    and def: "sites_defined s" and disj: "sites_disjoint s" and modes: "modes_recorded s"
    and imp: "imports_open s" and held: "placeholders_kept s"
    by (simp_all add: context_invariant_def)
  have old_name: "name l = n" if "find_label s n = Some l" for n l
    using linked that unfolding references_linked_def by blast
  have l2: "name l2 = nm" "label_references l2 = label_references l" "offset l2 = Some p"
    "\<not> imported l2"
    using old_name [OF l(1)] by (simp_all add: l2_def)
  have find: "find_label s' n = (if n = nm then Some l2 else find_label s n)" for n
    by (simp add: s'_def l2)
  have rels: "relocations (program s') = ?R" and img: "sparse_binary_code (program s') = m'"
    by (simp_all add: s'_def)
  have defined: "patch_site r \<subseteq> dom ?old" if "r \<in> ?R" for r
    using def that by (simp add: sites_defined_def)
  have old_link: "\<exists>l. find_label s (target_label r) = Some l \<and> r \<in> set (label_references l)"
    if "r \<in> ?R" for r
    using linked that by (simp add: references_linked_def)
  have old_refs: "r \<in> ?R \<and> target_label r = n"
    if "find_label s n = Some l" "r \<in> set (label_references l)" for n l r
    using linked that unfolding references_linked_def by blast
  have c1: "sites_defined s'"
    unfolding sites_defined_def rels img
  proof
    fix r assume "r \<in> ?R"
    from defined [OF this] dom show "patch_site r \<subseteq> dom m'" by (auto simp: dom_def)
  qed
  have c2: "sites_disjoint s'"
    using disj by (simp add: sites_disjoint_def rels)
  have c3: "references_linked s'"
    unfolding references_linked_def rels
  proof (intro conjI ballI allI impI)
    fix r assume r: "r \<in> ?R"
    from old_link [OF r] obtain l' where l': "find_label s (target_label r) = Some l'"
      "r \<in> set (label_references l')" by blast
    show "\<exists>l. find_label s' (target_label r) = Some l \<and> r \<in> set (label_references l)"
    proof (cases "target_label r = nm")
      case True
      then have "l' = l" using l' l by simp
      then have "find_label s' (target_label r) = Some l2" "r \<in> set (label_references l2)"
        using True l' l2 by (simp_all add: find)
      then show ?thesis by blast
    next
      case False
      then have "find_label s' (target_label r) = Some l'" using l' by (simp add: find)
      then show ?thesis using l' by blast
    qed
  next
    fix n l' assume "find_label s' n = Some l'"
    then show "name l' = n"
      using l2 old_name by (cases "n = nm") (simp_all add: find)
  next
    fix n l' r assume nl: "find_label s' n = Some l'" and r: "r \<in> set (label_references l')"
    show "r \<in> ?R"
    proof (cases "n = nm")
      case True
      then have "l' = l2" using nl by (simp add: find)
      then show ?thesis using r l2 old_refs [OF l(1)] by simp
    next
      case False
      then have "find_label s n = Some l'" using nl by (simp add: find)
      then show ?thesis using r old_refs by blast
    qed
  next
    fix n l' r assume nl: "find_label s' n = Some l'" and r: "r \<in> set (label_references l')"
    show "target_label r = n"
    proof (cases "n = nm")
      case True
      then have "l' = l2" using nl by (simp add: find)
      then show ?thesis using r l2 old_refs [OF l(1)] True by simp
    next
      case False
      then have "find_label s n = Some l'" using nl by (simp add: find)
      then show ?thesis using r old_refs by blast
    qed
  qed
  have c4: "modes_recorded s'"
    using modes by (simp add: modes_recorded_def rels)
  have c5: "offsets_encoded s'"
    unfolding offsets_encoded_def rels img
  proof (intro ballI allI impI)
    fix r l' off
    assume r: "r \<in> ?R" and l': "find_label s' (target_label r) = Some l'"
      and off: "offset l' = Some off"
    from old_link [OF r] obtain lr where lr: "find_label s (target_label r) = Some lr"
      "r \<in> set (label_references lr)" by blast
    show "encodes m' r off"
    proof (cases "target_label r = nm")
      case True
      then have "l' = l2" "lr = l" using l' lr l by (simp_all add: find)
      then show ?thesis using enc' lr(2) off l2 by simp
    next
      case False
      then have "find_label s (target_label r) = Some l'" using l' by (simp add: find)
      then have old: "encodes ?old r off"
        using enc r off unfolding offsets_encoded_def by blast
      have "patch_site r \<inter> patch_site r' = {}" if "r' \<in> set (label_references l)" for r'
      proof -
        from old_refs [OF l(1) that] have "r' \<in> ?R" "r \<noteq> r'" using False by auto
        then show ?thesis using disj r unfolding sites_disjoint_def by blast
      qed
      then have "\<forall>x \<in> patch_site r. m' x = ?old x"
        using out by blast
      from encodes_agree [OF this] old show ?thesis by simp
    qed
  qed
  have c6: "imports_open s'"
    unfolding imports_open_def
  proof (intro allI impI)
    fix n l' assume nl: "find_label s' n = Some l'"
    show "imported l' \<longleftrightarrow> offset l' = None"
    proof (cases "n = nm")
      case True
      then have "l' = l2" using nl by (simp add: find)
      then show ?thesis using l2 by simp
    next
      case False
      then have "find_label s n = Some l'" using nl by (simp add: find)
      then show ?thesis using imp unfolding imports_open_def by blast
    qed
  qed
  have c7: "placeholders_kept s'"
    unfolding placeholders_kept_def rels img
  proof (intro ballI allI impI)
    fix r l'
    assume r: "r \<in> ?R" and l': "find_label s' (target_label r) = Some l'"
      and none: "offset l' = None"
    have other: "target_label r \<noteq> nm"
      using l' none l2 by (auto simp: find)
    then have "find_label s (target_label r) = Some l'" using l' by (simp add: find)
    then have old: "encodes ?old r (position r)"
      using held r none unfolding placeholders_kept_def by blast
    have "patch_site r \<inter> patch_site r' = {}" if "r' \<in> set (label_references l)" for r'
    proof -
      from old_refs [OF l(1) that] have "r' \<in> ?R" "r \<noteq> r'" using other by auto
      then show ?thesis using disj r unfolding sites_disjoint_def by blast
    qed
    then have "\<forall>x \<in> patch_site r. m' x = ?old x"
      using out by blast
    from encodes_agree [OF this] old show "encodes m' r (position r)" by simp
  qed
  show ?thesis
    using c1 c2 c3 c4 c5 c6 c7 unfolding s'_def l2_def by (simp add: context_invariant_def)
qed

text \<open>The references of a label of a context that satisfies the invariant.\<close>

lemma label_references_apart:
  assumes inv: "context_invariant s" and l: "find_label s nm = Some l"
  shows "(\<forall>r \<in> set (label_references l). \<forall>r' \<in> set (label_references l).
            r \<noteq> r' \<longrightarrow> patch_site r \<inter> patch_site r' = {})
         \<and> (\<forall>r \<in> set (label_references l). mode r \<noteq> ZeroPage)"
proof -
  from inv have linked: "references_linked s" and disj: "sites_disjoint s"
    and modes: "modes_recorded s"
    by (simp_all add: context_invariant_def)
  have "r \<in> relocations (program s)" if "r \<in> set (label_references l)" for r
    using linked l that unfolding references_linked_def by blast
  then show ?thesis
    using disj modes unfolding sites_disjoint_def modes_recorded_def by blast
qed

lemma AddLabel_existing:
  assumes "find_label s nm = Some l" and "offset l = None"
  shows "AddLabel s nm =
           relocate_references
             (store_label s nm (l\<lparr>imported := False, offset := Some (current_position s)\<rparr>))
             (label_references l)"
  using assms by (simp add: AddLabel_def RelocateLabel_def Let_def)

lemma AddLabel_invariant:
  assumes inv: "context_invariant s" and ok: "AddLabel s nm = Inr s'"
  shows "context_invariant s'"
proof (cases "find_label s nm")
  case None
  then have "s' = store_label s nm \<lparr>name = nm, offset = Some (current_position s), imported = False,
                                 label_references = []\<rparr>"
    using ok by (simp add: AddLabel_def)
  then show ?thesis using AddLabel_new_invariant [OF inv None] by simp
next
  case (Some l)
  then have none: "offset l = None"
    using ok by (auto simp: AddLabel_def Let_def split: if_splits)
  let ?s1 = "store_label s nm (l\<lparr>imported := False, offset := Some (current_position s)\<rparr>)"
  have run: "relocate_references ?s1 (label_references l) = Inr s'"
    using ok AddLabel_existing [OF Some none] by simp
  from label_references_apart [OF inv Some]
  have apart: "\<forall>r \<in> set (label_references l). \<forall>r' \<in> set (label_references l).
            r \<noteq> r' \<longrightarrow> patch_site r \<inter> patch_site r' = {}"
    and modes: "\<forall>r \<in> set (label_references l). mode r \<noteq> ZeroPage"
    by blast+
  from relocate_references_result [OF run apart modes] obtain m'
    where s': "s' = store_code ?s1 m'"
      and out: "\<forall>x. x \<notin> \<Union> (patch_site ` set (label_references l)) \<longrightarrow>
                 m' x = sparse_binary_code (program s) x"
      and dom: "\<forall>x. sparse_binary_code (program s) x \<noteq> None \<longrightarrow> m' x \<noteq> None"
      and enc: "\<forall>r \<in> set (label_references l). encodes m' r (current_position s)"
    by auto
  show ?thesis
    unfolding s' by (rule AddLabel_patched_invariant [OF inv Some none out dom enc])
qed

lemma ProcessElement_invariant:
  "context_invariant s \<Longrightarrow> ProcessElement s e = Inr s' \<Longrightarrow> context_invariant s'"
proof (cases e)
  case (LabelDefinition nm)
  assume "context_invariant s" "ProcessElement s e = Inr s'"
  then show ?thesis using LabelDefinition AddLabel_invariant by simp
next
  case (ByteDirective toks)
  assume "context_invariant s" "ProcessElement s e = Inr s'"
  then show ?thesis using ByteDirective ParseByteCommand_invariant by simp
next
  case (WordDirective toks)
  assume "context_invariant s" "ProcessElement s e = Inr s'"
  then show ?thesis using WordDirective ParseWordCommand_invariant by simp
next
  case (OriginDirective new_pos)
  assume "context_invariant s" "ProcessElement s e = Inr s'"
  then show ?thesis using OriginDirective by (auto simp: ParseOriginCommand_def)
next
  case (Instruction instruction argument)
  assume "context_invariant s" "ProcessElement s e = Inr s'"
  then show ?thesis using Instruction ParseInstruction_invariant by simp
qed

lemma ProcessElements_invariant:
  "context_invariant s \<Longrightarrow> ProcessElements s es = Inr s' \<Longrightarrow> context_invariant s'"
proof (induction es arbitrary: s)
  case Nil
  then show ?case by simp
next
  case (Cons e es)
  from Cons.prems(2) obtain s1 where one: "ProcessElement s e = Inr s1"
    and rest: "ProcessElements s1 es = Inr s'"
    by (auto split: sum.splits)
  from ProcessElement_invariant [OF Cons.prems(1) one] have "context_invariant s1" .
  from Cons.IH [OF this rest] show ?case .
qed

lemma assembled_invariant:
  "ProcessElements initial_context src = Inr s \<Longrightarrow> context_invariant s"
  using ProcessElements_invariant [OF context_invariant_initial] .

section \<open>The result of the finalization\<close>





section \<open>Relocations\<close>

lemmas assembler_defs =
  ParseInstruction_def set_intersection_def SelectInstuctionVariant_label_def
  SelectInstuctionVariant_none_def SelectInstuctionVariant_data_def emit_instruction_def
  PutByte_def store_code_def store_label_def find_label_def add_reference_def
  insert_relocation_def ProcessInstructionArgument_label_def ProcessInstructionArgument_data_def
  ToBytes16_def ToBytes8_def RelativeJumpOffset_def AddLabel_def RelocateLabel_def
  relocate_reference_def ParseOriginCommand_def initial_context_def Let_def






section \<open>Label definition\<close>

lemma relocate_reference_state:
  "relocate_reference s r = Inr s1 \<Longrightarrow> \<exists>m. s1 = store_code s m"
  by (auto simp: relocate_reference_def PutByte_def ToBytes16_def ToBytes8_def Let_def
      split: if_splits sum.splits)

lemma relocate_references_state:
  "relocate_references s refs = Inr s' \<Longrightarrow> \<exists>m. s' = store_code s m"
proof (induction refs arbitrary: s)
  case Nil
  then show ?case by (intro exI [of _ "sparse_binary_code (program s)"]) simp
next
  case (Cons r rs)
  from Cons.prems obtain s1 where one: "relocate_reference s r = Inr s1"
    and rest: "relocate_references s1 rs = Inr s'"
    by (auto split: sum.splits)
  from relocate_reference_state [OF one] Cons.IH [OF rest] show ?case by auto
qed

lemma relocate_reference_fails:
  assumes "relocate_reference s r = Inl e"
  shows "e = JumpTooFar \<and> mode r \<noteq> Absolute
         \<and> (uint (current_position s) - uint (position r + 1) < - 128
              \<or> 127 < uint (current_position s) - uint (position r + 1))"
  using assms
  by (auto simp: relocate_reference_def PutByte_def ToBytes16_def ToBytes8_def
      RelativeJumpOffset_def Let_def split: if_splits sum.splits)

lemma relocate_references_fails:
  "relocate_references s refs = Inl e \<Longrightarrow>
   e = JumpTooFar
   \<and> (\<exists>r \<in> set refs. mode r \<noteq> Absolute
         \<and> (uint (current_position s) - uint (position r + 1) < - 128
              \<or> 127 < uint (current_position s) - uint (position r + 1)))"
proof (induction refs arbitrary: s)
  case Nil
  then show ?case by simp
next
  case (Cons r rs)
  show ?case
  proof (cases "relocate_reference s r")
    case (Inl e')
    then have "e' = e" using Cons.prems by simp
    then show ?thesis using relocate_reference_fails [OF Inl] by simp
  next
    case (Inr s1)
    then have rest: "relocate_references s1 rs = Inl e" using Cons.prems by simp
    from relocate_reference_state [OF Inr] have "current_position s1 = current_position s"
      by auto
    then show ?thesis using Cons.IH [OF rest] by auto
  qed
qed

text \<open>
  C5: defining a label whose symbol already exists without an offset assigns the current
  cursor as its offset and patches every relocation queued against it, so that each of
  them encodes the cursor in the sparse image (unless a relative reference is out of
  range, which is an error); defining a label whose symbol already has an offset is a
  duplicate-definition error.
\<close>

theorem AddLabel_known_symbol:
  assumes "ProcessElements initial_context src = Inr s" and "find_label s nm = Some l"
  shows "(offset l \<noteq> None \<longrightarrow> AddLabel s nm = Inl (LabelAlreadyDefined nm))
         \<and> (offset l = None \<longrightarrow>
               (\<exists>s'. AddLabel s nm = Inr s'
                   \<and> map_option offset (find_label s' nm) = Some (Some (current_position s))
                   \<and> relocations (program s') = relocations (program s)
                   \<and> (\<forall>r \<in> relocations (program s'). target_label r = nm \<longrightarrow>
                          encodes (sparse_binary_code (program s')) r (current_position s)))
               \<or> (AddLabel s nm = Inl JumpTooFar
                   \<and> (\<exists>r \<in> relocations (program s). target_label r = nm \<and> mode r = Relative
                         \<and> (uint (current_position s) - uint (position r + 1) < - 128
                              \<or> 127 < uint (current_position s) - uint (position r + 1)))))"
proof (intro conjI impI)
  assume "offset l \<noteq> None"
  then show "AddLabel s nm = Inl (LabelAlreadyDefined nm)"
    using assms(2) by (simp add: AddLabel_def Let_def)
next
  assume none: "offset l = None"
  let ?cur = "current_position s"
  let ?l2 = "l\<lparr>imported := False, offset := Some ?cur\<rparr>"
  let ?s1 = "store_label s nm ?l2"
  from assembled_invariant [OF assms(1)] have inv: "context_invariant s" .
  then have linked: "references_linked s" and modes: "modes_recorded s"
    by (simp_all add: context_invariant_def)
  have name: "name l = nm"
    using linked assms(2) unfolding references_linked_def by blast
  have refs: "r \<in> relocations (program s) \<and> target_label r = nm \<and> mode r \<noteq> ZeroPage"
    if "r \<in> set (label_references l)" for r
    using linked modes assms(2) that unfolding references_linked_def modes_recorded_def by blast
  have run: "AddLabel s nm = relocate_references ?s1 (label_references l)"
    by (rule AddLabel_existing [OF assms(2) none])
  show "(\<exists>s'. AddLabel s nm = Inr s'
                   \<and> map_option offset (find_label s' nm) = Some (Some ?cur)
                   \<and> relocations (program s') = relocations (program s)
                   \<and> (\<forall>r \<in> relocations (program s'). target_label r = nm \<longrightarrow>
                          encodes (sparse_binary_code (program s')) r ?cur))
               \<or> (AddLabel s nm = Inl JumpTooFar
                   \<and> (\<exists>r \<in> relocations (program s). target_label r = nm \<and> mode r = Relative
                         \<and> (uint ?cur - uint (position r + 1) < - 128
                              \<or> 127 < uint ?cur - uint (position r + 1))))"
  proof (cases "AddLabel s nm")
    case (Inl e)
    then have "relocate_references ?s1 (label_references l) = Inl e" using run by simp
    from relocate_references_fails [OF this] obtain r
      where e: "e = JumpTooFar" and r: "r \<in> set (label_references l)" "mode r \<noteq> Absolute"
        "uint ?cur - uint (position r + 1) < - 128 \<or> 127 < uint ?cur - uint (position r + 1)"
      by auto
    from refs [OF r(1)] r(2) have "mode r = Relative" by (cases "mode r") simp_all
    then show ?thesis using Inl e r refs [OF r(1)] by blast
  next
    case (Inr s')
    then have "relocate_references ?s1 (label_references l) = Inr s'" using run by simp
    from relocate_references_state [OF this] obtain m where s': "s' = store_code ?s1 m"
      by blast
    have found: "find_label s' nm = Some ?l2"
      by (simp add: s' name)
    have rels: "relocations (program s') = relocations (program s)"
      by (simp add: s')
    from AddLabel_invariant [OF inv Inr] have "offsets_encoded s'"
      by (simp add: context_invariant_def)
    then have "\<forall>r \<in> relocations (program s'). target_label r = nm \<longrightarrow>
                 encodes (sparse_binary_code (program s')) r ?cur"
      using found unfolding offsets_encoded_def by auto
    then show ?thesis using Inr found rels by simp
  qed
qed

theorem AddLabel_known_symbol_witness:
  "(\<exists>s s'. ProcessElements initial_context
              [OriginDirective 0x200, Instruction JMP_info (name_operand ''L'')] = Inr s
          \<and> map_option offset (find_label s ''L'') = Some None
          \<and> AddLabel s ''L'' = Inr s'
          \<and> map_option offset (find_label s' ''L'') = Some (Some 0x203)
          \<and> encodes (sparse_binary_code (program s'))
               \<lparr>target_label = ''L'', position = 0x201, mode = Absolute\<rparr> 0x203)
   \<and> (\<exists>s. ProcessElements initial_context [LabelDefinition ''L''] = Inr s
          \<and> AddLabel s ''L'' = Inl (LabelAlreadyDefined ''L''))"
proof
  have "\<exists>s l. ProcessElements initial_context
              [OriginDirective 0x200, Instruction JMP_info (name_operand ''L'')] = Inr s
          \<and> find_label s ''L'' = Some l \<and> offset l = None \<and> current_position s = 0x203
          \<and> \<lparr>target_label = ''L'', position = 0x201, mode = Absolute\<rparr> \<in> relocations (program s)
          \<and> AddLabel s ''L'' \<noteq> Inl JumpTooFar"
    by (simp add: JMP_info_def name_operand_def assembler_defs)
  then obtain s l
    where run: "ProcessElements initial_context
              [OriginDirective 0x200, Instruction JMP_info (name_operand ''L'')] = Inr s"
      and l: "find_label s ''L'' = Some l" "offset l = None"
      and cur: "current_position s = 0x203"
      and r: "\<lparr>target_label = ''L'', position = 0x201, mode = Absolute\<rparr> \<in> relocations (program s)"
      and ok: "AddLabel s ''L'' \<noteq> Inl JumpTooFar"
    by blast
  from AddLabel_known_symbol [OF run l(1)] l(2) ok cur obtain s'
    where "AddLabel s ''L'' = Inr s'"
      and "map_option offset (find_label s' ''L'') = Some (Some 0x203)"
      and "relocations (program s') = relocations (program s)"
      and "\<forall>r \<in> relocations (program s'). target_label r = ''L'' \<longrightarrow>
             encodes (sparse_binary_code (program s')) r 0x203"
    by auto
  then show "\<exists>s s'. ProcessElements initial_context
              [OriginDirective 0x200, Instruction JMP_info (name_operand ''L'')] = Inr s
          \<and> map_option offset (find_label s ''L'') = Some None
          \<and> AddLabel s ''L'' = Inr s'
          \<and> map_option offset (find_label s' ''L'') = Some (Some 0x203)
          \<and> encodes (sparse_binary_code (program s'))
               \<lparr>target_label = ''L'', position = 0x201, mode = Absolute\<rparr> 0x203"
    using run l r by (intro exI [of _ s] exI [of _ s']) auto
next
  have "\<exists>s l. ProcessElements initial_context [LabelDefinition ''L''] = Inr s
          \<and> find_label s ''L'' = Some l \<and> offset l \<noteq> None"
    by (simp add: assembler_defs)
  then obtain s l where run: "ProcessElements initial_context [LabelDefinition ''L''] = Inr s"
    and l: "find_label s ''L'' = Some l" "offset l \<noteq> None"
    by blast
  from AddLabel_known_symbol [OF run l(1)] l(2)
  have "AddLabel s ''L'' = Inl (LabelAlreadyDefined ''L'')" by simp
  then show "\<exists>s. ProcessElements initial_context [LabelDefinition ''L''] = Inr s
          \<and> AddLabel s ''L'' = Inl (LabelAlreadyDefined ''L'')"
    using run by blast
qed

section \<open>Relative operands\<close>






section \<open>Collisions and overwriting\<close>



section \<open>Selecting the address mode\<close>

lemma distinct_singleton:
  assumes "distinct xs"
  shows "(length xs = 1) = (\<exists>m. set xs = {m})" and "set xs = {m} \<Longrightarrow> xs = [m]"
proof -
  have card: "card (set xs) = length xs"
    using assms by (rule distinct_card)
  show "(length xs = 1) = (\<exists>m. set xs = {m})"
  proof
    assume "length xs = 1"
    then obtain y where "xs = [y]" by (cases xs) auto
    then show "\<exists>m. set xs = {m}" by simp
  next
    assume "\<exists>m. set xs = {m}"
    then show "length xs = 1" using card by auto
  qed
  show "xs = [m]" if "set xs = {m}"
  proof -
    from that card have "length xs = 1" by simp
    then obtain y where "xs = [y]" by (cases xs) auto
    then show ?thesis using that by simp
  qed
qed

lemma set_intersection_set:
  "set (set_intersection xs ys) = set xs \<inter> set ys" "distinct (set_intersection xs ys)"
  by (auto simp: set_intersection_def)

lemma SelectInstuctionVariant_label_result:
  assumes "distinct modes"
  shows "SelectInstuctionVariant_label modes =
           (if \<exists>m. set modes - {ZP, ZPX, ZPY} = {m}
            then Inr (the_elem (set modes - {ZP, ZPX, ZPY}))
            else Inl FailedToSelectLabel)"
proof -
  let ?rest = "removeAll ZP (removeAll ZPY (removeAll ZPX modes))"
  have d: "distinct ?rest"
    using assms by (simp add: distinct_removeAll)
  have s: "set ?rest = set modes - {ZP, ZPX, ZPY}"
    by auto
  show ?thesis
  proof (cases "\<exists>m. set modes - {ZP, ZPX, ZPY} = {m}")
    case True
    then obtain m where m: "set modes - {ZP, ZPX, ZPY} = {m}" by blast
    then have "?rest = [m]"
      using distinct_singleton(2) [OF d] s by simp
    then show ?thesis
      using m by (simp add: SelectInstuctionVariant_label_def Let_def)
  next
    case False
    then have "length ?rest \<noteq> 1"
      using distinct_singleton(1) [OF d] s by simp
    then show ?thesis
      using False by (simp add: SelectInstuctionVariant_label_def Let_def)
  qed
qed

text \<open>
  C4: when the argument of an instruction is a label, the zero-page address modes \<open>ZP\<close>,
  \<open>ZPX\<close> and \<open>ZPY\<close> are removed from the candidates (the argument's possible modes
  intersected with the modes the mnemonic supports), and encoding fails unless exactly
  one mode remains; when exactly one remains, it is the mode the instruction is encoded
  with, and it is not a zero-page mode.
\<close>

theorem label_variant_selection:
  assumes "argument_value argument = LabelArgument label"
    and "remaining =
           (set (possible_address_modes argument) \<inter> fst ` set (variants instruction))
             - {ZP, ZPX, ZPY}"
  shows "((\<nexists>m. remaining = {m}) \<longrightarrow>
            ParseInstruction s argument instruction = Inl FailedToSelectLabel)
         \<and> (\<forall>m. remaining = {m} \<longrightarrow>
               m \<noteq> ZP \<and> m \<noteq> ZPX \<and> m \<noteq> ZPY
               \<and> ParseInstruction s argument instruction =
                   (case emit_instruction s instruction m (LabelArgument label) of
                      Inl e \<Rightarrow> Inl (OpcodeDoesNotSupportMode e)
                    | Inr s' \<Rightarrow> Inr s'))"
proof -
  let ?modes = "set_intersection (possible_address_modes argument) (map fst (variants instruction))"
  have rem: "set ?modes - {ZP, ZPX, ZPY} = remaining"
    using assms(2) by (simp add: set_intersection_set)
  have sel: "SelectInstuctionVariant ?modes (argument_value argument) =
               (if \<exists>m. remaining = {m} then Inr (the_elem remaining) else Inl FailedToSelectLabel)"
    using SelectInstuctionVariant_label_result [OF set_intersection_set(2)] assms(1) rem
    by simp
  have fail: "ParseInstruction s argument instruction = Inl FailedToSelectLabel"
    if "\<nexists>m. remaining = {m}"
    using sel that by (simp add: ParseInstruction_def Let_def)
  have one: "m \<noteq> ZP \<and> m \<noteq> ZPX \<and> m \<noteq> ZPY
               \<and> ParseInstruction s argument instruction =
                   (case emit_instruction s instruction m (LabelArgument label) of
                      Inl e \<Rightarrow> Inl (OpcodeDoesNotSupportMode e)
                    | Inr s' \<Rightarrow> Inr s')"
    if m: "remaining = {m}" for m
  proof -
    have "m \<in> remaining" using m by simp
    then have "m \<noteq> ZP \<and> m \<noteq> ZPX \<and> m \<noteq> ZPY" using assms(2) by auto
    moreover have "SelectInstuctionVariant ?modes (argument_value argument) = Inr m"
      using sel m by simp
    ultimately show ?thesis
      using assms(1) by (simp add: ParseInstruction_def Let_def)
  qed
  show ?thesis using fail one by blast
qed

theorem label_variant_selection_witness:
  "map_sum id (\<lambda>s. map (sparse_binary_code (program s)) [0, 1, 2])
     (ParseInstruction initial_context (name_operand ''L'') LDA_info)
     = Inr [Some 0xAD, Some 0x01, Some 0x00]
   \<and> ParseInstruction initial_context (indirect_y_operand ''L'') JMP_info = Inl FailedToSelectLabel
   \<and> ParseInstruction initial_context
        \<lparr>possible_address_modes = [ABS, ABSX], argument_value = LabelArgument ''L''\<rparr> LDA_info
       = Inl FailedToSelectLabel"
proof -
  have a: "argument_value (name_operand ''L'') = LabelArgument ''L''"
    and r: "{ABS} = (set (possible_address_modes (name_operand ''L''))
                      \<inter> fst ` set (variants LDA_info)) - {ZP, ZPX, ZPY}"
    by (auto simp: name_operand_def LDA_info_def)
  have a2: "argument_value (indirect_y_operand ''L'') = LabelArgument ''L''"
    and r2: "{} = (set (possible_address_modes (indirect_y_operand ''L''))
                      \<inter> fst ` set (variants JMP_info)) - {ZP, ZPX, ZPY}"
    by (auto simp: indirect_y_operand_def JMP_info_def)
  let ?two = "\<lparr>possible_address_modes = [ABS, ABSX], argument_value = LabelArgument ''L''\<rparr>"
  have a3: "argument_value ?two = LabelArgument ''L''"
    and r3: "{ABS, ABSX} = (set (possible_address_modes ?two)
                      \<inter> fst ` set (variants LDA_info)) - {ZP, ZPX, ZPY}"
    by (auto simp: LDA_info_def)
  have "ParseInstruction initial_context (name_operand ''L'') LDA_info =
          (case emit_instruction initial_context LDA_info ABS (LabelArgument ''L'') of
             Inl e \<Rightarrow> Inl (OpcodeDoesNotSupportMode e)
           | Inr s' \<Rightarrow> Inr s')"
    using label_variant_selection [OF a r, of initial_context] by simp
  moreover have "ParseInstruction initial_context (indirect_y_operand ''L'') JMP_info
                   = Inl FailedToSelectLabel"
    using label_variant_selection [OF a2 r2, of initial_context] by simp
  moreover have "ParseInstruction initial_context ?two LDA_info = Inl FailedToSelectLabel"
    using label_variant_selection [OF a3 r3, of initial_context] by (simp add: doubleton_eq_iff)
  ultimately show ?thesis
    by (simp add: LDA_info_def emit_instruction_def PutByte_def store_code_def
        ProcessInstructionArgument_label_def ProcessInstructionArgument_data_def find_label_def
        add_reference_def store_label_def insert_relocation_def ToBytes16_def initial_context_def
        Let_def)
qed

section \<open>The mode of a recorded relocation\<close>




section \<open>Finalization\<close>



end
